theory Spec2Isabelle
  imports Main "HOL-Library.Sublist"
begin

section \<open>The outer-loop vectorizer of RV (src/passes/LoopVectorizer.cpp)\<close>

text \<open>
  A shallow embedding of \<^verbatim>\<open>LoopVectorizer\<close> and of \<^verbatim>\<open>IsHipSYCLKernel\<close>
  (src/annotations.cpp). The orchestrating functions are in the sources; the components
  they call (loop annotations, cost model, remainder transform, reduction analysis, the
  vectorization engine) are not, and enter the model as the fields of a record of
  collaborators. Diagnostic output (\<^verbatim>\<open>Report()\<close>, \<^verbatim>\<open>IF_DEBUG\<close>, \<^verbatim>\<open>viewCFG\<close>,
  \<^verbatim>\<open>verifyFunction\<close>) and the invalidation of cached analyses are not modelled.
\<close>

subsection \<open>Machine integers\<close>

text \<open>
  C++ \<^verbatim>\<open>int\<close> is 32 bits and \<^verbatim>\<open>size_t\<close> 64 bits. Values are kept as mathematical
  integers and every conversion of the source is written out.
\<close>

definition int_cast :: "int \<Rightarrow> int" where
  "int_cast x = (x + 2147483648) mod 4294967296 - 2147483648"

definition size_cast :: "int \<Rightarrow> nat" where
  "size_cast x = nat (x mod 18446744073709551616)"

subsection \<open>The environment\<close>

text \<open>
  \<^verbatim>\<open>getenv\<close> is a lookup in a map from names to texts. \<^verbatim>\<open>atoi\<close> is the C library's,
  which computes \<^verbatim>\<open>(int) strtol(text, NULL, 10)\<close>: leading white space, an optional sign,
  then decimal digits up to the first other character, 0 when there is no digit; the
  number is held to the range of a 64-bit \<^verbatim>\<open>long\<close> and then cut to the 32 bits of
  \<^verbatim>\<open>int\<close>.
\<close>

type_synonym environ = "string \<rightharpoonup> string"

definition isspace :: "char \<Rightarrow> bool" where
  "isspace c = ((of_char c :: nat) = 32 \<or> (9 \<le> (of_char c :: nat) \<and> (of_char c :: nat) \<le> 13))"

definition isdigit :: "char \<Rightarrow> bool" where
  "isdigit c = (48 \<le> (of_char c :: nat) \<and> (of_char c :: nat) \<le> 57)"

fun digits :: "int \<Rightarrow> string \<Rightarrow> int" where
  "digits acc [] = acc"
| "digits acc (c # cs) =
     (if isdigit c then digits (acc * 10 + (int (of_char c) - 48)) cs else acc)"

definition strtol10 :: "string \<Rightarrow> int" where
  "strtol10 s =
     (let v = (case dropWhile isspace s of
                 [] \<Rightarrow> 0
               | c # cs \<Rightarrow>
                   if c = CHR ''-'' then - digits 0 cs
                   else if c = CHR ''+'' then digits 0 cs
                   else digits 0 (c # cs))
      in if v > 9223372036854775807 then 9223372036854775807
         else if v < - 9223372036854775808 then - 9223372036854775808
         else v)"

definition atoi :: "string \<Rightarrow> int" where
  "atoi s = int_cast (strtol10 s)"

subsection \<open>Loops and loop annotations\<close>

type_synonym loop_id = nat
type_synonym value_id = nat
type_synonym block_id = nat

text \<open>
  \<^verbatim>\<open>LoopMD\<close>: every field is an \<^verbatim>\<open>Optional\<close>; \<^verbatim>\<open>safeGet\<close> reads one with a
  default. \<^verbatim>\<open>iter_t\<close> values are kept as integers.
\<close>

record LoopMD =
  alreadyVectorized :: "bool option"
  vectorizeEnable :: "bool option"
  minDepDist :: "int option"
  explicitVectorWidth :: "int option"

definition safeGet :: "'a option \<Rightarrow> 'a \<Rightarrow> 'a" where
  "safeGet opt dflt = (case opt of Some v \<Rightarrow> v | None \<Rightarrow> dflt)"

definition emptyMD :: LoopMD where
  "emptyMD = \<lparr>alreadyVectorized = None, vectorizeEnable = None,
              minDepDist = None, explicitVectorWidth = None\<rparr>"

datatype terminator = BranchInst | OtherTerminator

text \<open>
  What the pass reads of a loop from the loop structure and from scalar evolution:
  the parallel annotation, the terminator of the single exiting block (\<open>None\<close> when
  \<^verbatim>\<open>getExitingBlock\<close> is null), the backedge-taken count when it is an
  \<^verbatim>\<open>SCEVConstant\<close> (its sign-extended 64-bit value), and the sub-loops.
\<close>

datatype Loop =
  Loop (loopId: loop_id) (isAnnotatedParallel: bool) (exitingTerminator: "terminator option")
       (backedgeTakenCount: "int option") (subLoops: "Loop list")

subsection \<open>canVectorizeLoop, getTripCount, getTripAlignment, canAdjustTripCount\<close>

definition canVectorizeLoop :: "Loop \<Rightarrow> bool" where
  "canVectorizeLoop L =
     (if \<not> isAnnotatedParallel L then False
      else case exitingTerminator L of
             None \<Rightarrow> False
           | Some t \<Rightarrow> if t \<noteq> BranchInst then False else True)"

definition getTripCount :: "Loop \<Rightarrow> int" where
  "getTripCount L =
     (case backedgeTakenCount L of
        None \<Rightarrow> - 1
      | Some BTCVal \<Rightarrow>
          if BTCVal \<le> 1 \<or> int_cast BTCVal \<noteq> BTCVal then - 1
          else int_cast (BTCVal + 1))"

definition getTripAlignment :: "Loop \<Rightarrow> int" where
  "getTripAlignment L =
     (let tripCount = getTripCount L in if tripCount > 0 then tripCount else 1)"

definition canAdjustTripCount :: "Loop \<Rightarrow> int \<Rightarrow> int \<Rightarrow> bool" where
  "canAdjustTripCount L VectorWidth TripCount = (if VectorWidth = TripCount then True else False)"

subsection \<open>Reduction descriptors and IsSupportedReduction\<close>

text \<open>
  The enum \<^verbatim>\<open>RedKind\<close> is declared outside the sources; the pass tells \<^verbatim>\<open>Top\<close>
  and \<^verbatim>\<open>Bot\<close> from every other kind, which is all the model keeps.
\<close>

datatype RedKind = Top | Bot | Privatizable

text \<open>
  A user of an instruction is an instruction (with the block it sits in) or something
  else, for which \<^verbatim>\<open>dyn_cast<Instruction>\<close> gives null.
\<close>

datatype user = NonInstructionUser | InstructionUser value_id block_id

record Instruction =
  instId :: value_id
  users :: "user list"

record Reduction =
  elements :: "Instruction list"
  kind :: RedKind

datatype VectorShape = Undefined | Uniform | Strided int | Varying

definition isDefined :: "VectorShape \<Rightarrow> bool" where
  "isDefined sh = (sh \<noteq> Undefined)"

datatype header_inst = PHINode value_id | OtherInst value_id

text \<open>The prepared loop: its blocks (for \<^verbatim>\<open>contains\<close>) and the instructions of its header.\<close>

record PreparedLoop =
  preparedId :: loop_id
  blocks :: "block_id list"
  header :: "header_inst list"

fun usersSupported :: "block_id list \<Rightarrow> value_id list \<Rightarrow> user list \<Rightarrow> bool" where
  "usersSupported bs elems [] = True"
| "usersSupported bs elems (NonInstructionUser # us) = False"
| "usersSupported bs elems (InstructionUser u b # us) =
     (if b \<in> set bs \<and> u \<notin> set elems then False else usersSupported bs elems us)"

fun elementsSupported :: "block_id list \<Rightarrow> value_id list \<Rightarrow> Instruction list \<Rightarrow> bool" where
  "elementsSupported bs elems [] = True"
| "elementsSupported bs elems (inst # insts) =
     (if usersSupported bs elems (users inst) then elementsSupported bs elems insts else False)"

definition IsSupportedReduction :: "PreparedLoop \<Rightarrow> Reduction \<Rightarrow> bool" where
  "IsSupportedReduction L red =
     elementsSupported (blocks L) (map instId (elements red)) (elements red)"

subsection \<open>Collaborators and the state of the pass\<close>

record VectorizationInfo =
  viWidth :: int
  viRegion :: loop_id
  pinnedShapes :: "(value_id \<times> VectorShape) list"

text \<open>
  The components the pass calls and the sources do not contain, over an IR of any type
  \<open>'ir\<close>: the constant \<^verbatim>\<open>ParallelDistance\<close>; the cost model (\<^verbatim>\<open>size_t\<close> in and
  out); the remainder transform, which is given the loop and returns the IR it leaves
  behind and, unless it fails, the prepared loop with its uniform overrides; the reduction analysis as it
  answers after the transform (a stride pattern is given by its \<^verbatim>\<open>getShape\<close>); the
  engine's four steps; and whether the loop has a preheader.
\<close>

record 'ir collaborators =
  ParallelDistance :: int
  pickWidthForRegion :: "'ir \<Rightarrow> loop_id \<Rightarrow> nat \<Rightarrow> nat"
  createVectorizableLoop ::
    "'ir \<Rightarrow> Loop \<Rightarrow> int \<Rightarrow> int \<Rightarrow> 'ir \<times> (PreparedLoop \<times> value_id list) option"
  getStrideInfo :: "'ir \<Rightarrow> value_id \<Rightarrow> (int \<Rightarrow> VectorShape) option"
  getReductionInfo :: "'ir \<Rightarrow> value_id \<Rightarrow> Reduction option"
  reductionShape :: "Reduction \<Rightarrow> int \<Rightarrow> VectorShape"
  lowerRuntimeCalls :: "VectorizationInfo \<Rightarrow> 'ir \<Rightarrow> 'ir"
  analyze :: "VectorizationInfo \<Rightarrow> 'ir \<Rightarrow> VectorizationInfo"
  getLoopPreheader :: "'ir \<Rightarrow> loop_id \<Rightarrow> bool"
  linearize :: "VectorizationInfo \<Rightarrow> 'ir \<Rightarrow> 'ir"
  vectorize :: "VectorizationInfo \<Rightarrow> 'ir \<Rightarrow> 'ir \<times> bool"

text \<open>
  The calls the pass makes, in order. The list is a ghost field of the state: nothing
  reads it; it records which loops \<^verbatim>\<open>vectorizeLoop\<close> was entered for and which
  collaborators were called with which arguments.
\<close>

datatype call =
    VectorizeLoop loop_id
  | PickWidthForRegion loop_id nat
  | AnalyzeReductions loop_id
  | CreateVectorizableLoop loop_id int int
  | LowerRuntimeCalls int
  | Analyze int
  | Linearize int
  | Vectorize loop_id int

record 'ir pass_state =
  annotations :: "loop_id \<Rightarrow> LoopMD"
  ir :: "'ir"
  introduced :: bool
  calls :: "call list"

datatype fatal = AssertionFailed | VectorCodeGenFailed

text \<open>
  Modelled from the spec: \<^verbatim>\<open>GetLoopAnnotation\<close>, \<^verbatim>\<open>SetLLVMLoopAnnotations\<close> and
  \<^verbatim>\<open>ClearLoopVectorizeAnnotations\<close> (rv/analysis/loopAnnotations) are not among the
  sources. The annotation store keeps one \<^verbatim>\<open>LoopMD\<close> per loop; reading returns it;
  writing adds the fields that are set in the written value and keeps the others; clearing
  strips the vectorization hints (enable flag and explicit width).
\<close>

definition GetLoopAnnotation :: "'ir pass_state \<Rightarrow> Loop \<Rightarrow> LoopMD" where
  "GetLoopAnnotation st L = annotations st (loopId L)"

definition orElse :: "'a option \<Rightarrow> 'a option \<Rightarrow> 'a option" where
  "orElse new old = (case new of Some v \<Rightarrow> Some v | None \<Rightarrow> old)"

definition SetLLVMLoopAnnotations :: "'ir pass_state \<Rightarrow> loop_id \<Rightarrow> LoopMD \<Rightarrow> 'ir pass_state" where
  "SetLLVMLoopAnnotations st l md =
     (let old = annotations st l in
      st\<lparr>annotations := (annotations st)
        (l := \<lparr>alreadyVectorized = orElse (alreadyVectorized md) (alreadyVectorized old),
               vectorizeEnable = orElse (vectorizeEnable md) (vectorizeEnable old),
               minDepDist = orElse (minDepDist md) (minDepDist old),
               explicitVectorWidth = orElse (explicitVectorWidth md) (explicitVectorWidth old)\<rparr>)\<rparr>)"

definition ClearLoopVectorizeAnnotations :: "'ir pass_state \<Rightarrow> loop_id \<Rightarrow> 'ir pass_state" where
  "ClearLoopVectorizeAnnotations st l =
     st\<lparr>annotations := (annotations st)
       (l := (annotations st l)\<lparr>vectorizeEnable := None, explicitVectorWidth := None\<rparr>)\<rparr>"

subsection \<open>vectorizeLoop\<close>

text \<open>
  Lines 189 to 222: the width. \<open>None\<close> is the return at line 213 (the cost model finds
  no benefit).
\<close>

definition widthSelect ::
  "'ir collaborators \<Rightarrow> environ \<Rightarrow> Loop \<Rightarrow> LoopMD \<Rightarrow> int \<Rightarrow> 'ir pass_state
     \<Rightarrow> int option \<times> 'ir pass_state" where
  "widthSelect C env L mdAnnot depDist st =
     (let hasFixedWidth0 = (explicitVectorWidth mdAnnot \<noteq> None);
          VectorWidth0 = int_cast (case explicitVectorWidth mdAnnot of
                                     Some w \<Rightarrow> w | None \<Rightarrow> depDist);
          userWidthText = env ''RV_FORCE_WIDTH'';
          hasFixedWidth = (case userWidthText of Some t \<Rightarrow> True | None \<Rightarrow> hasFixedWidth0);
          VectorWidth = (case userWidthText of Some t \<Rightarrow> atoi t | None \<Rightarrow> VectorWidth0)
      in if \<not> hasFixedWidth then
           (let initialWidth = (if VectorWidth = 0 then size_cast depDist
                                else size_cast VectorWidth);
                refinedWidth = pickWidthForRegion C (ir st) (loopId L) initialWidth;
                st1 = st\<lparr>calls := calls st @ [PickWidthForRegion (loopId L) initialWidth]\<rparr>
            in if refinedWidth \<le> 1 then (None, st1)
               else if refinedWidth \<noteq> size_cast VectorWidth
                 then (Some (int_cast (int refinedWidth)), st1)
               else (Some VectorWidth, st1))
         else (Some VectorWidth, st))"

text \<open>
  Lines 271 to 315: the header phis of the prepared loop. \<open>None\<close> is one of the returns
  at lines 287, 292, 298 and 304; otherwise the shapes to pin.
\<close>

fun classifyHeader ::
  "'ir collaborators \<Rightarrow> 'ir \<Rightarrow> PreparedLoop \<Rightarrow> int \<Rightarrow> header_inst list
     \<Rightarrow> (value_id \<times> VectorShape) list \<Rightarrow> (value_id \<times> VectorShape) list option" where
  "classifyHeader C i P W [] pinned = Some pinned"
| "classifyHeader C i P W (OtherInst v # rest) pinned = classifyHeader C i P W rest pinned"
| "classifyHeader C i P W (PHINode phi # rest) pinned =
     (case getStrideInfo C i phi of
        Some pat \<Rightarrow>
          (let phiShape = pat W in
           classifyHeader C i P W rest
             (if isDefined phiShape then pinned @ [(phi, phiShape)] else pinned))
      | None \<Rightarrow>
          (case getReductionInfo C i phi of
             None \<Rightarrow> None
           | Some redInfo \<Rightarrow>
               if \<not> IsSupportedReduction P redInfo then None
               else if kind redInfo = Top then None
               else if kind redInfo = Bot then None
               else
                 (let phiShape = reductionShape C redInfo W in
                  classifyHeader C i P W rest
                    (if isDefined phiShape then pinned @ [(phi, phiShape)] else pinned))))"

text \<open>Lines 242 to 381: after the remainder transform has returned a prepared loop.\<close>

definition vectorizePrepared ::
  "'ir collaborators \<Rightarrow> Loop \<Rightarrow> int \<Rightarrow> PreparedLoop \<Rightarrow> value_id list \<Rightarrow> 'ir pass_state
     \<Rightarrow> (fatal + bool) \<times> 'ir pass_state" where
  "vectorizePrepared C L VectorWidth P uniOverrides st =
     (let st1 = SetLLVMLoopAnnotations st (loopId L) (emptyMD\<lparr>alreadyVectorized := Some True\<rparr>);
          st2 = ClearLoopVectorizeAnnotations st1 (preparedId P);
          st3 = st2\<lparr>introduced := True\<rparr>
      in case classifyHeader C (ir st3) P VectorWidth (header P) [] of
           None \<Rightarrow> (Inr False, st3)
         | Some pinned \<Rightarrow>
             (let vecInfo = \<lparr>viWidth = VectorWidth, viRegion = preparedId P,
                             pinnedShapes = pinned @ map (\<lambda>v. (v, Uniform)) uniOverrides\<rparr>;
                  st4 = st3\<lparr>ir := lowerRuntimeCalls C vecInfo (ir st3),
                            calls := calls st3 @ [LowerRuntimeCalls VectorWidth]\<rparr>;
                  vecInfo' = analyze C vecInfo (ir st4);
                  st5 = st4\<lparr>calls := calls st4 @ [Analyze VectorWidth]\<rparr>
              in if \<not> getLoopPreheader C (ir st5) (loopId L) then (Inl AssertionFailed, st5)
                 else
                   (let st6 = st5\<lparr>ir := linearize C vecInfo' (ir st5),
                                  calls := calls st5 @ [Linearize VectorWidth]\<rparr>;
                        res = vectorize C vecInfo' (ir st6);
                        st7 = st6\<lparr>ir := fst res,
                                  calls := calls st6 @ [Vectorize (loopId L) VectorWidth]\<rparr>
                    in if \<not> snd res then (Inl VectorCodeGenFailed, st7) else (Inr True, st7))))"

text \<open>Lines 131 to 145: the annotation read, overridden for a parallel loop.\<close>

definition effectiveAnnotation :: "'ir collaborators \<Rightarrow> 'ir pass_state \<Rightarrow> Loop \<Rightarrow> LoopMD" where
  "effectiveAnnotation C st L =
     (let md0 = GetLoopAnnotation st L in
      if isAnnotatedParallel L
      then md0\<lparr>minDepDist := Some (ParallelDistance C), vectorizeEnable := Some True\<rparr>
      else md0)"

text \<open>
  Lines 129 to 240. The first \<open>let\<close> records the entry in the ghost list. A fatal
  error (the failed assertion of line 352, \<^verbatim>\<open>llvm_unreachable\<close> at line 365) is
  returned with the state reached.
\<close>

definition vectorizeLoop ::
  "'ir collaborators \<Rightarrow> environ \<Rightarrow> Loop \<Rightarrow> 'ir pass_state \<Rightarrow> (fatal + bool) \<times> 'ir pass_state" where
  "vectorizeLoop C env L st0 =
     (let st = st0\<lparr>calls := calls st0 @ [VectorizeLoop (loopId L)]\<rparr>;
          mdAnnot = effectiveAnnotation C st L
      in if \<not> safeGet (vectorizeEnable mdAnnot) False then (Inr False, st)
         else if safeGet (alreadyVectorized mdAnnot) False then (Inr False, st)
         else
           (let depDist = safeGet (minDepDist mdAnnot) (ParallelDistance C) in
            if depDist \<le> 1 then (Inr False, st)
            else
              (let tripAlign = getTripAlignment L in
               case widthSelect C env L mdAnnot depDist st of
                 (None, st1) \<Rightarrow> (Inr False, st1)
               | (Some VectorWidth, st1) \<Rightarrow>
                   (let st2 = st1\<lparr>calls := calls st1 @
                                [AnalyzeReductions (loopId L),
                                 CreateVectorizableLoop (loopId L) VectorWidth tripAlign]\<rparr>;
                        res = createVectorizableLoop C (ir st2) L VectorWidth tripAlign;
                        st3 = st2\<lparr>ir := fst res\<rparr>
                    in case snd res of
                         None \<Rightarrow> (Inr False, st3)
                       | Some (P, uniOverrides) \<Rightarrow>
                           vectorizePrepared C L VectorWidth P uniOverrides st3))))"

subsection \<open>vectorizeLoopOrSubLoops and run\<close>

text \<open>
  \<open>vectorizeLoops\<close> is the loop \<^verbatim>\<open>for (... : loops) Changed |= vectorizeLoopOrSubLoops(...)\<close>
  of both functions, over the list captured beforehand. A fatal error ends everything.
\<close>

fun vectorizeLoopOrSubLoops ::
  "'ir collaborators \<Rightarrow> environ \<Rightarrow> Loop \<Rightarrow> 'ir pass_state \<Rightarrow> (fatal + bool) \<times> 'ir pass_state"
and vectorizeLoops ::
  "'ir collaborators \<Rightarrow> environ \<Rightarrow> Loop list \<Rightarrow> bool \<Rightarrow> 'ir pass_state
     \<Rightarrow> (fatal + bool) \<times> 'ir pass_state" where
  "vectorizeLoopOrSubLoops C env (Loop l par ex btc subs) st =
     (case vectorizeLoop C env (Loop l par ex btc subs) st of
        (Inl f, st') \<Rightarrow> (Inl f, st')
      | (Inr ok, st') \<Rightarrow> if ok then (Inr True, st') else vectorizeLoops C env subs False st')"
| "vectorizeLoops C env [] Changed st = (Inr Changed, st)"
| "vectorizeLoops C env (SubL # rest) Changed st =
     (case vectorizeLoopOrSubLoops C env SubL st of
        (Inl f, st') \<Rightarrow> (Inl f, st')
      | (Inr c, st') \<Rightarrow> vectorizeLoops C env rest (Changed \<or> c) st')"

text \<open>
  A module, as \<^verbatim>\<open>IsHipSYCLKernel\<close> reads it: its global variables by name, and for the
  annotation array its entries (the annotated function when the operand is one, and the
  annotation text).
\<close>

record annotation_entry =
  annotFunc :: "string option"
  annotationText :: string

datatype GlobalVariable = GlobalVariable (globalName: string) (annotationEntries: "annotation_entry list")

record Function =
  functionName :: string
  parentGlobals :: "GlobalVariable list"
  loopInfo :: "Loop list"

fun scanEntries :: "string \<Rightarrow> annotation_entry list \<Rightarrow> bool" where
  "scanEntries F [] = False"
| "scanEntries F (CS # rest) =
     (if annotationText CS = ''hipsycl_nd_kernel'' \<and> annotFunc CS = Some F then True
      else scanEntries F rest)"

fun scanGlobals :: "string \<Rightarrow> GlobalVariable list \<Rightarrow> bool" where
  "scanGlobals F [] = False"
| "scanGlobals F (I # rest) =
     (if globalName I = ''llvm.global.annotations'' \<and> scanEntries F (annotationEntries I) then True
      else scanGlobals F rest)"

definition IsHipSYCLKernel :: "Function \<Rightarrow> bool" where
  "IsHipSYCLKernel F = scanGlobals (functionName F) (parentGlobals F)"

definition run ::
  "'ir collaborators \<Rightarrow> environ \<Rightarrow> Function \<Rightarrow> 'ir pass_state \<Rightarrow> (fatal + bool) \<times> 'ir pass_state" where
  "run C env F st =
     (if env ''RV_DISABLE'' \<noteq> None then (Inr False, st)
      else if \<not> IsHipSYCLKernel F then (Inr False, st)
      else vectorizeLoops C env (loopInfo F) False st)"

subsection \<open>Reading the list of calls\<close>

definition newCalls :: "'ir pass_state \<Rightarrow> 'ir pass_state \<Rightarrow> call list" where
  "newCalls st st' = drop (length (calls st)) (calls st')"

definition visited :: "call list \<Rightarrow> loop_id list" where
  "visited cs = concat (map (\<lambda>c. case c of VectorizeLoop l \<Rightarrow> [l] | _ \<Rightarrow> []) cs)"

definition widthsChosen :: "call list \<Rightarrow> int list" where
  "widthsChosen cs =
     concat (map (\<lambda>c. case c of CreateVectorizableLoop l W ta \<Rightarrow> [W] | _ \<Rightarrow> []) cs)"

definition costModelCalls :: "call list \<Rightarrow> call list" where
  "costModelCalls cs = filter (\<lambda>c. case c of PickWidthForRegion l w \<Rightarrow> True | _ \<Rightarrow> False) cs"

definition transformCalls :: "call list \<Rightarrow> call list" where
  "transformCalls cs =
     filter (\<lambda>c. case c of CreateVectorizableLoop l W ta \<Rightarrow> True | _ \<Rightarrow> False) cs"

definition engineCalls :: "call list \<Rightarrow> call list" where
  "engineCalls cs =
     filter (\<lambda>c. case c of LowerRuntimeCalls W \<Rightarrow> True | Analyze W \<Rightarrow> True
                   | Linearize W \<Rightarrow> True | Vectorize l W \<Rightarrow> True | _ \<Rightarrow> False) cs"

text \<open>
  The loops whose prepared copy went through the engine's \<^verbatim>\<open>vectorize\<close>. When that call
  fails the run ends with a fatal error; in every other run these are the loops for which
  \<open>vectorizeLoop\<close> returned true.
\<close>

definition vectorizedLoops :: "call list \<Rightarrow> loop_id list" where
  "vectorizedLoops cs = concat (map (\<lambda>c. case c of Vectorize l W \<Rightarrow> [l] | _ \<Rightarrow> []) cs)"

text \<open>The three checks of lines 153 to 171 all let the loop through.\<close>

definition passesGate :: "'ir collaborators \<Rightarrow> 'ir pass_state \<Rightarrow> Loop \<Rightarrow> bool" where
  "passesGate C st L =
     (let mdAnnot = effectiveAnnotation C st L in
      safeGet (vectorizeEnable mdAnnot) False
      \<and> \<not> safeGet (alreadyVectorized mdAnnot) False
      \<and> 1 < safeGet (minDepDist mdAnnot) (ParallelDistance C))"

text \<open>The dependence distance of line 165.\<close>

definition depDistOf :: "'ir collaborators \<Rightarrow> 'ir pass_state \<Rightarrow> Loop \<Rightarrow> int" where
  "depDistOf C st L = safeGet (minDepDist (effectiveAnnotation C st L)) (ParallelDistance C)"

text \<open>
  The width \<open>widthSelect\<close> settles on for a loop, the first guess given to the cost model
  (line 203) and the engine calls that go with each outcome of \<open>vectorizePrepared\<close>.
\<close>

definition chosenWidth :: "'ir collaborators \<Rightarrow> environ \<Rightarrow> Loop \<Rightarrow> 'ir pass_state \<Rightarrow> int option" where
  "chosenWidth C env L st =
     fst (widthSelect C env L (effectiveAnnotation C st L) (depDistOf C st L) st)"

definition initialWidthOf :: "int \<Rightarrow> nat" where
  "initialWidthOf depDist =
     (if int_cast depDist = 0 then size_cast depDist else size_cast (int_cast depDist))"

definition costPart :: "'ir collaborators \<Rightarrow> environ \<Rightarrow> Loop \<Rightarrow> 'ir pass_state \<Rightarrow> call list" where
  "costPart C env L st =
     (if env ''RV_FORCE_WIDTH'' = None \<and> explicitVectorWidth (effectiveAnnotation C st L) = None
      then [PickWidthForRegion (loopId L) (initialWidthOf (depDistOf C st L))]
      else [])"

definition enginePart :: "loop_id \<Rightarrow> int \<Rightarrow> fatal + bool \<Rightarrow> call list" where
  "enginePart l W r =
     (case r of
        Inr ok \<Rightarrow> if ok then [LowerRuntimeCalls W, Analyze W, Linearize W, Vectorize l W] else []
      | Inl AssertionFailed \<Rightarrow> [LowerRuntimeCalls W, Analyze W]
      | Inl VectorCodeGenFailed \<Rightarrow> [LowerRuntimeCalls W, Analyze W, Linearize W, Vectorize l W])"

text \<open>The state after lines 242 to 255: both annotation writes and the banner flag.\<close>

definition marked :: "'ir pass_state \<Rightarrow> Loop \<Rightarrow> PreparedLoop \<Rightarrow> 'ir pass_state" where
  "marked st L P =
     (ClearLoopVectorizeAnnotations
        (SetLLVMLoopAnnotations st (loopId L) (emptyMD\<lparr>alreadyVectorized := Some True\<rparr>))
        (preparedId P))\<lparr>introduced := True\<rparr>"

text \<open>The loops of a nest, outermost first and depth first, and their identifiers.\<close>

fun loopsOf :: "Loop \<Rightarrow> Loop list" where
  "loopsOf (Loop l par ex btc subs) = Loop l par ex btc subs # concat (map loopsOf subs)"

definition preorder :: "Loop \<Rightarrow> loop_id list" where
  "preorder L = map loopId (loopsOf L)"

definition forestOrder :: "Loop list \<Rightarrow> loop_id list" where
  "forestOrder Ls = concat (map preorder Ls)"

text \<open>The calls of \<open>st'\<close> are those of \<open>st\<close> followed by new ones.\<close>

definition extends :: "'ir pass_state \<Rightarrow> 'ir pass_state \<Rightarrow> bool" where
  "extends st st' = (calls st' = calls st @ newCalls st st')"

definition forestLoops :: "Loop list \<Rightarrow> Loop list" where
  "forestLoops Ls = concat (map loopsOf Ls)"

text \<open>
  What the specification says of the calls \<open>n\<close> of a traversal of the loop forest \<open>Ls\<close>:
  the loops are entered in depth-first order, outermost first, every top-level loop among
  them, and only loops that were entered are vectorized; no loop nested in a vectorized
  loop is entered; every immediate sub-loop of a loop that was entered and not vectorized
  is entered.
\<close>

definition depthFirst :: "Loop list \<Rightarrow> call list \<Rightarrow> bool" where
  "depthFirst Ls n =
     (subseq (visited n) (forestOrder Ls)
      \<and> (\<forall>S\<in>set Ls. loopId S \<in> set (visited n))
      \<and> set (vectorizedLoops n) \<subseteq> set (visited n))"

definition subLoopsSkipped :: "Loop list \<Rightarrow> call list \<Rightarrow> bool" where
  "subLoopsSkipped Ls n =
     (\<forall>M\<in>set (forestLoops Ls). loopId M \<in> set (vectorizedLoops n)
        \<longrightarrow> (\<forall>d\<in>set (forestOrder (subLoops M)). d \<notin> set (visited n)))"

definition subLoopsTried :: "Loop list \<Rightarrow> call list \<Rightarrow> bool" where
  "subLoopsTried Ls n =
     (\<forall>M\<in>set (forestLoops Ls). loopId M \<in> set (visited n)
        \<longrightarrow> loopId M \<notin> set (vectorizedLoops n)
        \<longrightarrow> (\<forall>S\<in>set (subLoops M). loopId S \<in> set (visited n)))"

definition traversalInv :: "Loop list \<Rightarrow> call list \<Rightarrow> bool" where
  "traversalInv Ls n = (depthFirst Ls n \<and> subLoopsSkipped Ls n \<and> subLoopsTried Ls n)"

subsection \<open>The trip count as the claims speak of it\<close>

text \<open>
  The exact trip count of a loop whose backedge-taken count is a constant: one more than
  that count. \<open>specTripAlignment\<close> follows the words of the specification, to be compared
  with \<open>getTripAlignment\<close>.
\<close>

definition exactTripCount :: "Loop \<Rightarrow> int option" where
  "exactTripCount L = map_option (\<lambda>b. b + 1) (backedgeTakenCount L)"

definition specTripAlignment :: "Loop \<Rightarrow> int" where
  "specTripAlignment L =
     (case exactTripCount L of
        None \<Rightarrow> 1
      | Some T \<Rightarrow> if 0 \<le> T \<and> int_cast T = T \<and> T > 1 then T else 1)"

subsection \<open>The remainder transform as the specification describes it\<close>

text \<open>
  Modelled from the spec: \<^verbatim>\<open>RemainderTransform::createVectorizableLoop\<close>
  (rv/transform/remTransform) is not among the sources; \<open>transformToVectorizableLoop\<close>
  only passes its arguments on. For a loop with constant trip count \<open>T\<close> and width \<open>W\<close>
  the specification has the prepared main loop execute \<open>floor(T/W)\<close> vector iterations
  and the remainder loop \<open>T mod W\<close> scalar iterations, in original order. Vector
  iteration \<open>k\<close> stands for the \<open>W\<close> original iterations \<open>k * W, \<dots>, k * W + W - 1\<close>, one
  per lane; the remainder loop takes up after the last of them. A loop body acts on a
  state of any type, and running a list of iterations applies it to each in turn.
\<close>

definition mainIterations :: "nat \<Rightarrow> nat \<Rightarrow> nat" where
  "mainIterations T W = T div W"

definition remainderIterations :: "nat \<Rightarrow> nat \<Rightarrow> nat" where
  "remainderIterations T W = T mod W"

definition vectorIteration :: "nat \<Rightarrow> nat \<Rightarrow> nat list" where
  "vectorIteration W k = [k * W ..< k * W + W]"

definition mainLoop :: "nat \<Rightarrow> nat \<Rightarrow> nat list list" where
  "mainLoop T W = map (vectorIteration W) [0 ..< mainIterations T W]"

definition remainderLoop :: "nat \<Rightarrow> nat \<Rightarrow> nat list" where
  "remainderLoop T W =
     map (\<lambda>j. mainIterations T W * W + j) [0 ..< remainderIterations T W]"

definition originalLoop :: "nat \<Rightarrow> nat list" where
  "originalLoop T = [0 ..< T]"

definition execute :: "(nat \<Rightarrow> 's \<Rightarrow> 's) \<Rightarrow> nat list \<Rightarrow> 's \<Rightarrow> 's" where
  "execute body its s = fold body its s"

text \<open>
  Modelled from the spec: what \<^verbatim>\<open>createVectorizableLoop\<close> does with a loop whose exit it
  cannot handle is not in the sources. The specification has the transform return
  failure for loop shapes it cannot handle, multiple exits among them, and has a skipped
  loop left unmodified. \<open>failsOnUnsupportedExit\<close> says so of a remainder transform: for a
  loop without a single exiting block that ends in a branch it returns no prepared loop
  and the IR it was given.
\<close>

definition failsOnUnsupportedExit :: "'ir collaborators \<Rightarrow> bool" where
  "failsOnUnsupportedExit C =
     (\<forall>i L W ta. exitingTerminator L \<noteq> Some BranchInst
        \<longrightarrow> createVectorizableLoop C i L W ta = (i, None))"

subsection \<open>Concrete inputs\<close>

text \<open>
  Sample inputs for the closed theorems below. The IR is a counter of the changes made to
  it. The prepared loop has blocks 10 and 11 and a header with an induction phi 1, a
  second phi 2 and one more instruction. \<open>sumReduction\<close> is the recurrence of phi 2
  through the addition 5, whose result is also used by instruction 9 in block 20 after
  the loop; in \<open>leakyReduction\<close> the addition is used by instruction 7 in block 11,
  inside the loop and outside the recurrence.
\<close>

definition samplePrepared :: PreparedLoop where
  "samplePrepared = \<lparr>preparedId = 100, blocks = [10, 11],
                      header = [PHINode 1, PHINode 2, OtherInst 3]\<rparr>"

definition sumReduction :: Reduction where
  "sumReduction =
     \<lparr>elements = [\<lparr>instId = 2, users = [InstructionUser 5 10]\<rparr>,
                  \<lparr>instId = 5, users = [InstructionUser 2 10, InstructionUser 9 20]\<rparr>],
      kind = Privatizable\<rparr>"

definition leakyReduction :: Reduction where
  "leakyReduction =
     \<lparr>elements = [\<lparr>instId = 2, users = [InstructionUser 5 10]\<rparr>,
                  \<lparr>instId = 5, users = [InstructionUser 2 10, InstructionUser 7 11]\<rparr>],
      kind = Privatizable\<rparr>"

definition sampleCollab :: "nat collaborators" where
  "sampleCollab =
     \<lparr>ParallelDistance = 9223372036854775807,
      pickWidthForRegion = (\<lambda>i l w. 8),
      createVectorizableLoop = (\<lambda>i l W ta. (i + 1, Some (samplePrepared, [40]))),
      getStrideInfo = (\<lambda>i v. if v = 1 then Some (\<lambda>W. Strided 1) else None),
      getReductionInfo = (\<lambda>i v. if v = 2 then Some sumReduction else None),
      reductionShape = (\<lambda>r W. Varying),
      lowerRuntimeCalls = (\<lambda>vi i. i + 1),
      analyze = (\<lambda>vi i. vi),
      getLoopPreheader = (\<lambda>i l. True),
      linearize = (\<lambda>vi i. i + 1),
      vectorize = (\<lambda>vi i. (i + 1, True))\<rparr>"

text \<open>
  Variants: an unsupported reduction at phi 2; a remainder transform that fails, leaving
  the IR alone, on a loop without a single exiting block ending in a branch.
\<close>

definition leakyCollab :: "nat collaborators" where
  "leakyCollab =
     sampleCollab\<lparr>getReductionInfo := (\<lambda>i v. if v = 2 then Some leakyReduction else None)\<rparr>"

definition rejectingCollab :: "nat collaborators" where
  "rejectingCollab =
     sampleCollab\<lparr>createVectorizableLoop :=
       (\<lambda>i L W ta. if exitingTerminator L = Some BranchInst
                    then (i + 1, Some (samplePrepared, [40])) else (i, None))\<rparr>"

definition sampleState :: "nat pass_state" where
  "sampleState = \<lparr>annotations = (\<lambda>l. emptyMD), ir = 0, introduced = False, calls = []\<rparr>"

definition sampleLoop :: Loop where
  "sampleLoop = Loop 7 True (Some BranchInst) (Some 15) []"

text \<open>
  A state in which every loop carries an explicit width of 8; a loop without a single
  exiting block; a loop that is not parallel, enabled, with dependence distance 1, and
  its state; a nest of an outer loop that is not enabled with two parallel inner loops.
\<close>

definition explicitState :: "nat pass_state" where
  "explicitState = sampleState\<lparr>annotations := (\<lambda>l. emptyMD\<lparr>explicitVectorWidth := Some 8\<rparr>)\<rparr>"

definition noExitLoop :: Loop where
  "noExitLoop = Loop 7 True None (Some 15) []"

definition dependentLoop :: Loop where
  "dependentLoop = Loop 3 False (Some BranchInst) None []"

definition dependentState :: "nat pass_state" where
  "dependentState =
     sampleState\<lparr>annotations :=
       (\<lambda>l. emptyMD\<lparr>vectorizeEnable := Some True, minDepDist := Some 1\<rparr>)\<rparr>"

definition sampleNest :: Loop where
  "sampleNest =
     Loop 5 False (Some BranchInst) None
       [Loop 2 True (Some BranchInst) (Some 15) [Loop 4 True (Some BranchInst) None []],
        Loop 3 True (Some BranchInst) None []]"

text \<open>A module that annotates another function as kernel, and a function \<open>f\<close> in it.\<close>

definition sampleFunction :: Function where
  "sampleFunction =
     \<lparr>functionName = ''f'',
      parentGlobals =
        [GlobalVariable ''table'' [],
         GlobalVariable ''llvm.global.annotations''
           [\<lparr>annotFunc = Some ''g'', annotationText = ''hipsycl_nd_kernel''\<rparr>,
            \<lparr>annotFunc = Some ''f'', annotationText = ''noinline''\<rparr>]],
      loopInfo = [sampleNest]\<rparr>"

definition kernelFunction :: Function where
  "kernelFunction =
     \<lparr>functionName = ''g'',
      parentGlobals = parentGlobals sampleFunction,
      loopInfo = [sampleNest]\<rparr>"

section \<open>Properties\<close>

subsection \<open>Conversions\<close>

lemma int_cast_id: "int_cast x = x \<longleftrightarrow> - 2147483648 \<le> x \<and> x \<le> 2147483647"
  unfolding int_cast_def by auto

lemma int_cast_bounds: "- 2147483648 \<le> int_cast x \<and> int_cast x \<le> 2147483647"
  unfolding int_cast_def
  using pos_mod_bound [of 4294967296 "x + 2147483648"] pos_mod_sign [of 4294967296 "x + 2147483648"]
  by linarith

lemma size_cast_small:
  assumes "size_cast x = n" "- 2147483648 \<le> x" "x \<le> 2147483647" "n < 2147483648"
  shows "x = int n"
proof (cases "0 \<le> x")
  case True
  then have "x mod 18446744073709551616 = x"
    using assms(3) by simp
  with assms(1) True show ?thesis
    by (simp add: size_cast_def)
next
  case False
  then have "(x + 18446744073709551616) mod 18446744073709551616 = x + 18446744073709551616"
    using assms(2) by (intro mod_pos_pos_trivial) simp_all
  then have "x mod 18446744073709551616 = x + 18446744073709551616"
    by simp
  with assms(1,2,4) show ?thesis
    by (simp add: size_cast_def)
qed

subsection \<open>The list of calls\<close>

lemma newCalls_append: "calls st' = calls st @ cs \<Longrightarrow> newCalls st st' = cs"
  by (simp add: newCalls_def)

lemma visited_append: "visited (xs @ ys) = visited xs @ visited ys"
  by (simp add: visited_def)

lemma widthsChosen_append: "widthsChosen (xs @ ys) = widthsChosen xs @ widthsChosen ys"
  by (simp add: widthsChosen_def)

lemma costModelCalls_append: "costModelCalls (xs @ ys) = costModelCalls xs @ costModelCalls ys"
  by (simp add: costModelCalls_def)

lemma engineCalls_append: "engineCalls (xs @ ys) = engineCalls xs @ engineCalls ys"
  by (simp add: engineCalls_def)

lemma transformCalls_append: "transformCalls (xs @ ys) = transformCalls xs @ transformCalls ys"
  by (simp add: transformCalls_def)

lemma vectorizedLoops_append:
  "vectorizedLoops (xs @ ys) = vectorizedLoops xs @ vectorizedLoops ys"
  by (simp add: vectorizedLoops_def)

lemma reads_Nil:
  "visited [] = []" "widthsChosen [] = []" "costModelCalls [] = []" "engineCalls [] = []"
  "transformCalls [] = []" "vectorizedLoops [] = []"
  by (simp_all add: visited_def widthsChosen_def engineCalls_def transformCalls_def
      vectorizedLoops_def costModelCalls_def)

lemma visited_Cons:
  "visited (c # cs) = (case c of VectorizeLoop l \<Rightarrow> [l] | _ \<Rightarrow> []) @ visited cs"
  by (simp add: visited_def)

lemma widthsChosen_Cons:
  "widthsChosen (c # cs) =
     (case c of CreateVectorizableLoop l W ta \<Rightarrow> [W] | _ \<Rightarrow> []) @ widthsChosen cs"
  by (simp add: widthsChosen_def)

lemma vectorizedLoops_Cons:
  "vectorizedLoops (c # cs) = (case c of Vectorize l W \<Rightarrow> [l] | _ \<Rightarrow> []) @ vectorizedLoops cs"
  by (simp add: vectorizedLoops_def)

lemma costModelCalls_Cons:
  "costModelCalls (c # cs) =
     (case c of PickWidthForRegion l w \<Rightarrow> [c] | _ \<Rightarrow> []) @ costModelCalls cs"
  by (simp add: costModelCalls_def split: call.splits)

lemma transformCalls_Cons:
  "transformCalls (c # cs) =
     (case c of CreateVectorizableLoop l W ta \<Rightarrow> [c] | _ \<Rightarrow> []) @ transformCalls cs"
  by (simp add: transformCalls_def split: call.splits)

lemma engineCalls_Cons:
  "engineCalls (c # cs) =
     (case c of LowerRuntimeCalls W \<Rightarrow> [c] | Analyze W \<Rightarrow> [c] | Linearize W \<Rightarrow> [c]
              | Vectorize l W \<Rightarrow> [c] | _ \<Rightarrow> []) @ engineCalls cs"
  by (simp add: engineCalls_def split: call.splits)

lemmas reads_Cons = visited_Cons widthsChosen_Cons vectorizedLoops_Cons costModelCalls_Cons
  transformCalls_Cons engineCalls_Cons

lemmas reads_append = visited_append widthsChosen_append vectorizedLoops_append
  costModelCalls_append transformCalls_append engineCalls_append

lemma costPart_reads:
  "visited (costPart C env L st) = []" "widthsChosen (costPart C env L st) = []"
  "engineCalls (costPart C env L st) = []" "transformCalls (costPart C env L st) = []"
  "vectorizedLoops (costPart C env L st) = []"
  "costModelCalls (costPart C env L st) = costPart C env L st"
  by (simp_all add: costPart_def visited_def widthsChosen_def engineCalls_def transformCalls_def
      vectorizedLoops_def costModelCalls_def)

lemma enginePart_reads:
  "visited (enginePart l W r) = []" "widthsChosen (enginePart l W r) = []"
  "costModelCalls (enginePart l W r) = []" "transformCalls (enginePart l W r) = []"
  "engineCalls (enginePart l W r) = enginePart l W r"
  "vectorizedLoops (enginePart l W r) = (if r = Inr False \<or> r = Inl AssertionFailed then [] else [l])"
  by (auto simp: enginePart_def visited_def widthsChosen_def engineCalls_def transformCalls_def
      vectorizedLoops_def costModelCalls_def split: sum.splits fatal.splits)

subsection \<open>The stages of vectorizeLoop\<close>

lemma widthSelect_state:
  "snd (widthSelect C env L md dd st) =
     st\<lparr>calls := calls st @
        (if env ''RV_FORCE_WIDTH'' = None \<and> explicitVectorWidth md = None
         then [PickWidthForRegion (loopId L) (initialWidthOf dd)]
         else [])\<rparr>"
  by (auto simp: widthSelect_def initialWidthOf_def Let_def split: option.splits)

lemma widthSelect_env:
  "env ''RV_FORCE_WIDTH'' = Some t \<Longrightarrow> fst (widthSelect C env L md dd st) = Some (atoi t)"
  by (simp add: widthSelect_def Let_def)

lemma widthSelect_explicit:
  "env ''RV_FORCE_WIDTH'' = None \<Longrightarrow> explicitVectorWidth md = Some w
     \<Longrightarrow> fst (widthSelect C env L md dd st) = Some (int_cast w)"
  by (simp add: widthSelect_def Let_def)

lemma widthSelect_costModel:
  assumes "env ''RV_FORCE_WIDTH'' = None" "explicitVectorWidth md = None"
    and "fst (widthSelect C env L md dd st) = Some W"
    and "r = pickWidthForRegion C (ir st) (loopId L) (initialWidthOf dd)"
  shows "1 < r \<and> (r < 2147483648 \<longrightarrow> W = int r)"
proof -
  have sel: "(if r \<le> 1 then None
              else if r \<noteq> size_cast (int_cast dd) then Some (int_cast (int r))
              else Some (int_cast dd)) = Some W"
    using assms by (simp add: widthSelect_def initialWidthOf_def Let_def split: if_splits)
  then have gt: "1 < r"
    by (simp split: if_splits)
  have "W = int r" if small: "r < 2147483648"
  proof (cases "r = size_cast (int_cast dd)")
    case True
    then have "W = int_cast dd"
      using sel gt by simp
    moreover have "int_cast dd = int r"
      using size_cast_small [of "int_cast dd" r] True small int_cast_bounds [of dd] by simp
    ultimately show ?thesis by simp
  next
    case False
    then have "W = int_cast (int r)"
      using sel gt by simp
    moreover have "int_cast (int r) = int r"
      using small by (simp add: int_cast_id)
    ultimately show ?thesis by simp
  qed
  with gt show ?thesis by simp
qed

lemma widthSelect_fst_calls [simp]:
  "fst (widthSelect C env L md dd (st\<lparr>calls := cs\<rparr>)) = fst (widthSelect C env L md dd st)"
  by (simp add: widthSelect_def Let_def)

lemma ir_widthSelect [simp]: "ir (snd (widthSelect C env L md dd st)) = ir st"
  by (simp add: widthSelect_state)

lemma annotations_widthSelect [simp]:
  "annotations (snd (widthSelect C env L md dd st)) = annotations st"
  by (simp add: widthSelect_state)

lemma effectiveAnnotation_calls [simp]:
  "effectiveAnnotation C (st\<lparr>calls := cs\<rparr>) L = effectiveAnnotation C st L"
  by (simp add: effectiveAnnotation_def GetLoopAnnotation_def)

lemma explicit_effectiveAnnotation:
  "explicitVectorWidth (effectiveAnnotation C st L) = explicitVectorWidth (annotations st (loopId L))"
  by (simp add: effectiveAnnotation_def GetLoopAnnotation_def Let_def)

lemma ir_Set [simp]: "ir (SetLLVMLoopAnnotations st l md) = ir st"
  by (simp add: SetLLVMLoopAnnotations_def Let_def)

lemma calls_Set [simp]: "calls (SetLLVMLoopAnnotations st l md) = calls st"
  by (simp add: SetLLVMLoopAnnotations_def Let_def)

lemma ir_Clear [simp]: "ir (ClearLoopVectorizeAnnotations st l) = ir st"
  by (simp add: ClearLoopVectorizeAnnotations_def)

lemma calls_Clear [simp]: "calls (ClearLoopVectorizeAnnotations st l) = calls st"
  by (simp add: ClearLoopVectorizeAnnotations_def)

lemma marked_fields:
  "ir (marked st L P) = ir st" "calls (marked st L P) = calls st"
  "introduced (marked st L P) = True"
  by (simp_all add: marked_def)

lemma marked_alreadyVectorized:
  "preparedId P \<noteq> loopId L
     \<Longrightarrow> alreadyVectorized (annotations (marked st L P) (loopId L)) = Some True"
  by (simp add: marked_def SetLLVMLoopAnnotations_def ClearLoopVectorizeAnnotations_def
      Let_def orElse_def emptyMD_def)

lemma vectorizePrepared_rejected:
  "classifyHeader C (ir st) P W (header P) [] = None
     \<Longrightarrow> vectorizePrepared C L W P uni st = (Inr False, marked st L P)"
  by (simp add: vectorizePrepared_def marked_def Let_def)

lemma vectorizePrepared_calls:
  "calls (snd (vectorizePrepared C L W P uni st))
     = calls st @ enginePart (loopId L) W (fst (vectorizePrepared C L W P uni st))"
  by (simp add: vectorizePrepared_def enginePart_def Let_def split: option.splits)

lemma vectorizePrepared_accepted:
  assumes "classifyHeader C (ir st) P W (header P) [] = Some pinned"
    and "\<And>vi i. getLoopPreheader C i (loopId L)"
    and "\<And>vi i. snd (vectorize C vi i)"
  shows "fst (vectorizePrepared C L W P uni st) = Inr True"
  using assms by (simp add: vectorizePrepared_def Let_def)

lemma vectorizeLoop_not_gate:
  "\<not> passesGate C st L
     \<Longrightarrow> vectorizeLoop C env L st = (Inr False, st\<lparr>calls := calls st @ [VectorizeLoop (loopId L)]\<rparr>)"
  by (auto simp: vectorizeLoop_def passesGate_def Let_def)

lemma vectorizeLoop_gate:
  assumes "passesGate C st L"
  shows "vectorizeLoop C env L st =
     (let st0 = st\<lparr>calls := calls st @ [VectorizeLoop (loopId L)]\<rparr>;
          st1 = snd (widthSelect C env L (effectiveAnnotation C st L) (depDistOf C st L) st0)
      in case chosenWidth C env L st of
           None \<Rightarrow> (Inr False, st1)
         | Some W \<Rightarrow>
             (let st2 = st1\<lparr>calls := calls st1 @
                          [AnalyzeReductions (loopId L),
                           CreateVectorizableLoop (loopId L) W (getTripAlignment L)]\<rparr>;
                  res = createVectorizableLoop C (ir st) L W (getTripAlignment L);
                  st3 = st2\<lparr>ir := fst res\<rparr>
              in case snd res of
                   None \<Rightarrow> (Inr False, st3)
                 | Some (P, uni) \<Rightarrow> vectorizePrepared C L W P uni st3))"
proof -
  let ?st0 = "st\<lparr>calls := calls st @ [VectorizeLoop (loopId L)]\<rparr>"
  let ?ws = "widthSelect C env L (effectiveAnnotation C st L) (depDistOf C st L) ?st0"
  have ws: "?ws = (chosenWidth C env L st, snd ?ws)"
    by (simp add: chosenWidth_def prod_eq_iff)
  from assms show ?thesis
    unfolding vectorizeLoop_def passesGate_def Let_def
    apply (simp add: depDistOf_def [symmetric])
    apply (subst ws)
    apply (simp split: option.splits)
    done
qed

lemma widthSelect_calls:
  "calls (snd (widthSelect C env L (effectiveAnnotation C st L) (depDistOf C st L) st'))
     = calls st' @ costPart C env L st"
  by (simp add: widthSelect_state costPart_def)

lemma vectorizeLoop_calls:
  "calls (snd (vectorizeLoop C env L st)) =
     calls st @ VectorizeLoop (loopId L) #
       (if passesGate C st L then
          costPart C env L st @
          (case chosenWidth C env L st of
             None \<Rightarrow> []
           | Some W \<Rightarrow>
               [AnalyzeReductions (loopId L),
                CreateVectorizableLoop (loopId L) W (getTripAlignment L)]
               @ enginePart (loopId L) W (fst (vectorizeLoop C env L st)))
        else [])"
proof (cases "passesGate C st L")
  case False
  then show ?thesis
    by (simp add: vectorizeLoop_not_gate)
next
  case True
  show ?thesis
    by (simp add: True vectorizeLoop_gate [OF True] Let_def widthSelect_calls
        vectorizePrepared_calls enginePart_def split: option.splits prod.splits)
qed

lemma vectorizeLoop_newCalls:
  "newCalls st (snd (vectorizeLoop C env L st)) =
     VectorizeLoop (loopId L) #
       (if passesGate C st L then
          costPart C env L st @
          (case chosenWidth C env L st of
             None \<Rightarrow> []
           | Some W \<Rightarrow>
               [AnalyzeReductions (loopId L),
                CreateVectorizableLoop (loopId L) W (getTripAlignment L)]
               @ enginePart (loopId L) W (fst (vectorizeLoop C env L st)))
        else [])"
  by (rule newCalls_append) (rule vectorizeLoop_calls)

lemma vectorizeLoop_widthsChosen:
  "widthsChosen (newCalls st (snd (vectorizeLoop C env L st))) =
     (if passesGate C st L then (case chosenWidth C env L st of None \<Rightarrow> [] | Some W \<Rightarrow> [W])
      else [])"
  by (simp add: vectorizeLoop_newCalls reads_append reads_Cons reads_Nil costPart_reads
      enginePart_reads split: option.splits)

lemma vectorizeLoop_costModelCalls:
  "costModelCalls (newCalls st (snd (vectorizeLoop C env L st))) =
     (if passesGate C st L then costPart C env L st else [])"
  by (simp add: vectorizeLoop_newCalls reads_append reads_Cons reads_Nil costPart_reads
      enginePart_reads split: option.splits)

lemma vectorizeLoop_transformCalls:
  "transformCalls (newCalls st (snd (vectorizeLoop C env L st))) =
     (if passesGate C st L
      then (case chosenWidth C env L st of
              None \<Rightarrow> []
            | Some W \<Rightarrow> [CreateVectorizableLoop (loopId L) W (getTripAlignment L)])
      else [])"
  by (simp add: vectorizeLoop_newCalls reads_append reads_Cons reads_Nil costPart_reads
      enginePart_reads split: option.splits)

lemma vectorizeLoop_engineCalls:
  "engineCalls (newCalls st (snd (vectorizeLoop C env L st))) =
     (if passesGate C st L
      then (case chosenWidth C env L st of
              None \<Rightarrow> []
            | Some W \<Rightarrow> enginePart (loopId L) W (fst (vectorizeLoop C env L st)))
      else [])"
  by (simp add: vectorizeLoop_newCalls reads_append reads_Cons reads_Nil costPart_reads
      enginePart_reads split: option.splits)

lemma vectorizeLoop_visited:
  "visited (newCalls st (snd (vectorizeLoop C env L st))) = [loopId L]"
  by (simp add: vectorizeLoop_newCalls reads_append reads_Cons reads_Nil costPart_reads
      enginePart_reads split: option.splits)

subsection \<open>Trip alignment\<close>

text \<open>
  C8, as the code has it: the trip alignment is the exact trip count \<open>T\<close> when the
  backedge-taken count is a constant and \<open>3 \<le> T \<le> 2147483647\<close>, and 1 in every other
  case. The guard of \<^verbatim>\<open>getTripCount\<close> tests the backedge-taken count \<open>T - 1\<close> against 1, so
  a trip count of 2 gives alignment 1; and a trip count of 2147483648, whose
  backedge-taken count still fits \<^verbatim>\<open>int\<close>, wraps to a negative \<^verbatim>\<open>int\<close> and gives 1.
\<close>

theorem tripAlignment_amended:
  "getTripAlignment L =
     (case exactTripCount L of
        None \<Rightarrow> 1
      | Some T \<Rightarrow> if 3 \<le> T \<and> T \<le> 2147483647 then T else 1)"
proof (cases "backedgeTakenCount L")
  case None
  then show ?thesis
    by (simp add: getTripAlignment_def getTripCount_def exactTripCount_def)
next
  case (Some b)
  consider "b \<le> 1" | "2 \<le> b" "b \<le> 2147483646" | "b = 2147483647" | "2147483648 \<le> b"
    by linarith
  then show ?thesis
  proof cases
    case 1
    with Some show ?thesis
      by (simp add: getTripAlignment_def getTripCount_def exactTripCount_def)
  next
    case 2
    then have "int_cast b = b" "int_cast (b + 1) = b + 1"
      by (simp_all add: int_cast_id)
    with Some 2 show ?thesis
      by (simp add: getTripAlignment_def getTripCount_def exactTripCount_def)
  next
    case 3
    with Some show ?thesis
      by (simp add: getTripAlignment_def getTripCount_def exactTripCount_def int_cast_def)
  next
    case 4
    then have "int_cast b \<noteq> b"
      by (simp add: int_cast_id)
    with Some 4 show ?thesis
      by (simp add: getTripAlignment_def getTripCount_def exactTripCount_def)
  qed
qed

text \<open>
  The amended C8 at three loops: backedge-taken count 15 (trip count 16), backedge-taken
  count 2147483647 (trip count 2147483648), and no constant count.
\<close>

theorem tripAlignment_amended_witness:
  "getTripAlignment (Loop 7 True (Some BranchInst) (Some 15) []) = 16
   \<and> getTripAlignment (Loop 7 True (Some BranchInst) (Some 2147483647) []) = 1
   \<and> getTripAlignment (Loop 7 True (Some BranchInst) None []) = 1"
  using tripAlignment_amended [of "Loop 7 True (Some BranchInst) (Some 15) []"]
        tripAlignment_amended [of "Loop 7 True (Some BranchInst) (Some 2147483647) []"]
        tripAlignment_amended [of "Loop 7 True (Some BranchInst) None []"]
  by (simp add: exactTripCount_def)

text \<open>
  C8 as stated fails for a loop that runs twice: its trip count 2 is a constant, fits
  \<^verbatim>\<open>int\<close> and is greater than 1, so the claim gives alignment 2; the code gives 1.
\<close>

theorem tripAlignment_counterexample:
  "exactTripCount (Loop 7 True (Some BranchInst) (Some 1) []) = Some 2
   \<and> specTripAlignment (Loop 7 True (Some BranchInst) (Some 1) []) = 2
   \<and> getTripAlignment (Loop 7 True (Some BranchInst) (Some 1) []) = 1
   \<and> getTripAlignment (Loop 7 True (Some BranchInst) (Some 1) [])
       \<noteq> specTripAlignment (Loop 7 True (Some BranchInst) (Some 1) [])"
  by (simp add: exactTripCount_def specTripAlignment_def getTripAlignment_def getTripCount_def
      int_cast_def)

subsection \<open>Facts about the concrete inputs\<close>

lemma sampleCollab_fields:
  "ParallelDistance sampleCollab = 9223372036854775807"
  "pickWidthForRegion sampleCollab i l w = 8"
  "createVectorizableLoop sampleCollab i L W ta = (i + 1, Some (samplePrepared, [40]))"
  "getStrideInfo sampleCollab i v = (if v = 1 then Some (\<lambda>W. Strided 1) else None)"
  "getReductionInfo sampleCollab i v = (if v = 2 then Some sumReduction else None)"
  "reductionShape sampleCollab r W = Varying"
  "lowerRuntimeCalls sampleCollab vi i = i + 1"
  "analyze sampleCollab vi i = vi"
  "getLoopPreheader sampleCollab i l = True"
  "linearize sampleCollab vi i = i + 1"
  "vectorize sampleCollab vi i = (i + 1, True)"
  by (simp_all add: sampleCollab_def)

lemma leakyCollab_fields:
  "ParallelDistance leakyCollab = 9223372036854775807"
  "pickWidthForRegion leakyCollab i l w = 8"
  "createVectorizableLoop leakyCollab i L W ta = (i + 1, Some (samplePrepared, [40]))"
  "getStrideInfo leakyCollab i v = (if v = 1 then Some (\<lambda>W. Strided 1) else None)"
  "getReductionInfo leakyCollab i v = (if v = 2 then Some leakyReduction else None)"
  by (simp_all add: leakyCollab_def sampleCollab_def)

lemma rejectingCollab_fields:
  "ParallelDistance rejectingCollab = 9223372036854775807"
  "pickWidthForRegion rejectingCollab i l w = 8"
  "createVectorizableLoop rejectingCollab i L W ta =
     (if exitingTerminator L = Some BranchInst then (i + 1, Some (samplePrepared, [40]))
      else (i, None))"
  by (simp_all add: rejectingCollab_def sampleCollab_def)

lemma sampleState_fields:
  "annotations sampleState l = emptyMD" "ir sampleState = 0"
  "introduced sampleState = False" "calls sampleState = []"
  by (simp_all add: sampleState_def)

lemma explicitState_fields:
  "annotations explicitState l = emptyMD\<lparr>explicitVectorWidth := Some 8\<rparr>" "ir explicitState = 0"
  "introduced explicitState = False" "calls explicitState = []"
  by (simp_all add: explicitState_def sampleState_def)

lemma dependentState_fields:
  "annotations dependentState l = emptyMD\<lparr>vectorizeEnable := Some True, minDepDist := Some 1\<rparr>"
  "ir dependentState = 0" "introduced dependentState = False" "calls dependentState = []"
  by (simp_all add: dependentState_def sampleState_def)

lemma sampleLoop_fields:
  "loopId sampleLoop = 7" "isAnnotatedParallel sampleLoop = True"
  "exitingTerminator sampleLoop = Some BranchInst" "backedgeTakenCount sampleLoop = Some 15"
  "subLoops sampleLoop = []"
  by (simp_all add: sampleLoop_def)

lemma noExitLoop_fields:
  "loopId noExitLoop = 7" "isAnnotatedParallel noExitLoop = True"
  "exitingTerminator noExitLoop = None" "backedgeTakenCount noExitLoop = Some 15"
  "subLoops noExitLoop = []"
  by (simp_all add: noExitLoop_def)

lemma dependentLoop_fields:
  "loopId dependentLoop = 3" "isAnnotatedParallel dependentLoop = False"
  by (simp_all add: dependentLoop_def)

lemma samplePrepared_fields:
  "preparedId samplePrepared = 100" "blocks samplePrepared = [10, 11]"
  "header samplePrepared = [PHINode 1, PHINode 2, OtherInst 3]"
  by (simp_all add: samplePrepared_def)

lemma atoi_samples:
  "atoi ''4'' = 4" "atoi ''0'' = 0" "atoi ''-4'' = - 4" "atoi ''wide'' = 0"
  "atoi ''2147483648'' = - 2147483648" "atoi ''-2147483649'' = 2147483647"
  "atoi ''99999999999999999999'' = - 1"
  by (simp_all add: atoi_def strtol10_def int_cast_def isspace_def isdigit_def)

lemma parallel_passesGate:
  "isAnnotatedParallel L \<Longrightarrow> alreadyVectorized (annotations st (loopId L)) = None
     \<Longrightarrow> 1 < ParallelDistance C \<Longrightarrow> passesGate C st L"
  by (simp add: passesGate_def effectiveAnnotation_def GetLoopAnnotation_def safeGet_def)

lemma parallel_depDistOf:
  "isAnnotatedParallel L \<Longrightarrow> depDistOf C st L = ParallelDistance C"
  by (simp add: depDistOf_def effectiveAnnotation_def GetLoopAnnotation_def safeGet_def)

lemma chosenWidth_env:
  "env ''RV_FORCE_WIDTH'' = Some t \<Longrightarrow> chosenWidth C env L st = Some (atoi t)"
  by (simp add: chosenWidth_def widthSelect_env)

lemma chosenWidth_explicit:
  "env ''RV_FORCE_WIDTH'' = None \<Longrightarrow> explicitVectorWidth (annotations st (loopId L)) = Some w
     \<Longrightarrow> chosenWidth C env L st = Some (int_cast w)"
  by (simp add: chosenWidth_def widthSelect_explicit explicit_effectiveAnnotation)

lemma sample_gate:
  "passesGate sampleCollab sampleState sampleLoop"
  "passesGate sampleCollab sampleState noExitLoop"
  "passesGate rejectingCollab sampleState noExitLoop"
  "passesGate leakyCollab sampleState sampleLoop"
  "passesGate sampleCollab explicitState sampleLoop"
  by (simp_all add: parallel_passesGate sampleLoop_fields noExitLoop_fields sampleState_fields
      explicitState_fields sampleCollab_fields rejectingCollab_fields leakyCollab_fields emptyMD_def)

lemma initialWidth_parallel: "initialWidthOf 9223372036854775807 = 18446744073709551615"
  by (simp add: initialWidthOf_def int_cast_def size_cast_def)

lemma sample_chosenWidth:
  "chosenWidth sampleCollab Map.empty sampleLoop sampleState = Some 8"
  "chosenWidth sampleCollab Map.empty noExitLoop sampleState = Some 8"
  "chosenWidth rejectingCollab Map.empty noExitLoop sampleState = Some 8"
  "chosenWidth leakyCollab Map.empty sampleLoop sampleState = Some 8"
  by (simp_all add: chosenWidth_def widthSelect_def Let_def effectiveAnnotation_def
      GetLoopAnnotation_def sampleLoop_fields noExitLoop_fields sampleState_fields
      sampleCollab_fields rejectingCollab_fields leakyCollab_fields emptyMD_def
      parallel_depDistOf int_cast_def size_cast_def)

lemma sample_supported:
  "IsSupportedReduction samplePrepared sumReduction"
  "\<not> IsSupportedReduction samplePrepared leakyReduction"
  by (simp_all add: IsSupportedReduction_def samplePrepared_def sumReduction_def leakyReduction_def)

lemma sample_kind: "kind sumReduction = Privatizable" "kind leakyReduction = Privatizable"
  by (simp_all add: sumReduction_def leakyReduction_def)

lemma sample_classify:
  "classifyHeader sampleCollab i samplePrepared W (header samplePrepared) []
     = Some [(1, Strided 1), (2, Varying)]"
  by (simp add: samplePrepared_fields sampleCollab_fields sample_supported sample_kind
      isDefined_def)

lemma sample_tripAlignment: "getTripAlignment sampleLoop = 16" "getTripAlignment noExitLoop = 16"
  by (simp_all add: getTripAlignment_def getTripCount_def sampleLoop_fields noExitLoop_fields
      int_cast_def)

subsection \<open>The dependence gate\<close>

text \<open>
  C7: a loop that is not annotated parallel and whose recorded minimum dependence distance
  is at most 1 is skipped at the gate: \<open>vectorizeLoop\<close> returns false, and the state it
  leaves differs from the one it found only by the entry in the ghost list. No
  collaborator is called; IR, annotations and banner flag are as before.
\<close>

theorem dependence_gate:
  assumes "minDepDist (annotations st (loopId L)) = Some d" and "d \<le> 1"
    and "\<not> isAnnotatedParallel L"
  shows "vectorizeLoop C env L st
           = (Inr False, st\<lparr>calls := calls st @ [VectorizeLoop (loopId L)]\<rparr>)"
proof -
  have "\<not> passesGate C st L"
    using assms
    by (simp add: passesGate_def effectiveAnnotation_def GetLoopAnnotation_def safeGet_def)
  then show ?thesis
    by (rule vectorizeLoop_not_gate)
qed

text \<open>C7 at a loop with dependence distance 1 that is enabled and not parallel.\<close>

theorem dependence_gate_witness:
  "vectorizeLoop sampleCollab Map.empty dependentLoop dependentState
     = (Inr False, dependentState\<lparr>calls := calls dependentState @ [VectorizeLoop 3]\<rparr>)"
  using dependence_gate [of dependentState dependentLoop 1 sampleCollab Map.empty]
  by (simp add: dependentState_fields dependentLoop_fields)

subsection \<open>Functions that are not kernels\<close>

lemma scanEntries_iff:
  "scanEntries F es \<longleftrightarrow>
     (\<exists>e\<in>set es. annotationText e = ''hipsycl_nd_kernel'' \<and> annotFunc e = Some F)"
  by (induction es) auto

lemma scanGlobals_iff:
  "scanGlobals F gs \<longleftrightarrow>
     (\<exists>g\<in>set gs. globalName g = ''llvm.global.annotations''
        \<and> (\<exists>e\<in>set (annotationEntries g).
              annotationText e = ''hipsycl_nd_kernel'' \<and> annotFunc e = Some F))"
  by (induction gs) (auto simp: scanEntries_iff)

lemma IsHipSYCLKernel_iff:
  "IsHipSYCLKernel F \<longleftrightarrow>
     (\<exists>g\<in>set (parentGlobals F). globalName g = ''llvm.global.annotations''
        \<and> (\<exists>e\<in>set (annotationEntries g).
              annotationText e = ''hipsycl_nd_kernel'' \<and> annotFunc e = Some (functionName F)))"
  by (simp add: IsHipSYCLKernel_def scanGlobals_iff)

text \<open>
  C3: when no entry of a global named \<^verbatim>\<open>llvm.global.annotations\<close> pairs the text
  \<^verbatim>\<open>hipsycl_nd_kernel\<close> with the function, \<open>run\<close> returns false and leaves the state as
  it is: no loop is entered, nothing is called, the IR is unchanged. So a run that
  changes anything is a run on an annotated kernel.
\<close>

theorem not_kernel_untouched:
  assumes "\<not> (\<exists>g\<in>set (parentGlobals F). globalName g = ''llvm.global.annotations''
              \<and> (\<exists>e\<in>set (annotationEntries g).
                    annotationText e = ''hipsycl_nd_kernel''
                    \<and> annotFunc e = Some (functionName F)))"
  shows "run C env F st = (Inr False, st)"
  using assms by (simp add: run_def IsHipSYCLKernel_iff)

text \<open>
  C3 at a function \<open>f\<close> whose module annotates \<open>g\<close> as kernel and \<open>f\<close> with another text.
\<close>

theorem not_kernel_untouched_witness:
  "run sampleCollab Map.empty sampleFunction sampleState = (Inr False, sampleState)"
  using not_kernel_untouched [of sampleFunction sampleCollab Map.empty sampleState]
  by (simp add: sampleFunction_def)

subsection \<open>The width under an override\<close>

text \<open>
  C2, as the code has it. With \<^verbatim>\<open>RV_FORCE_WIDTH\<close> set or an explicit width in the
  annotation the cost model is not called for the loop. For a loop that passes the gate,
  the width handed to the remainder transform is \<^verbatim>\<open>atoi\<close> of the environment text when
  the variable is set, whatever the annotation says; and the annotation's explicit width,
  converted to \<^verbatim>\<open>int\<close> (itself when it fits), when the variable is not set.
\<close>

theorem width_override_amended:
  fixes C :: "'ir collaborators"
  defines "new \<equiv> \<lambda>env L st. newCalls st (snd (vectorizeLoop C env L st))"
  shows "(env ''RV_FORCE_WIDTH'' \<noteq> None \<or> explicitVectorWidth (annotations st (loopId L)) \<noteq> None
            \<longrightarrow> costModelCalls (new env L st) = [])
       \<and> (passesGate C st L \<longrightarrow>
            (\<forall>t. env ''RV_FORCE_WIDTH'' = Some t \<longrightarrow> widthsChosen (new env L st) = [atoi t])
          \<and> (\<forall>w. env ''RV_FORCE_WIDTH'' = None
                  \<and> explicitVectorWidth (annotations st (loopId L)) = Some w
                \<longrightarrow> widthsChosen (new env L st) = [int_cast w]
                    \<and> (- 2147483648 \<le> w \<and> w \<le> 2147483647
                         \<longrightarrow> widthsChosen (new env L st) = [w])))"
proof (intro conjI impI allI)
  assume "env ''RV_FORCE_WIDTH'' \<noteq> None \<or> explicitVectorWidth (annotations st (loopId L)) \<noteq> None"
  then have "costPart C env L st = []"
    by (auto simp: costPart_def explicit_effectiveAnnotation)
  then show "costModelCalls (new env L st) = []"
    by (simp add: new_def vectorizeLoop_costModelCalls)
next
  fix t
  assume "passesGate C st L" "env ''RV_FORCE_WIDTH'' = Some t"
  then show "widthsChosen (new env L st) = [atoi t]"
    by (simp add: new_def vectorizeLoop_widthsChosen chosenWidth_env)
next
  fix w
  assume g: "passesGate C st L"
    and w: "env ''RV_FORCE_WIDTH'' = None
            \<and> explicitVectorWidth (annotations st (loopId L)) = Some w"
  then show eq: "widthsChosen (new env L st) = [int_cast w]"
    by (simp add: new_def vectorizeLoop_widthsChosen chosenWidth_explicit)
  assume "- 2147483648 \<le> w \<and> w \<le> 2147483647"
  then have "int_cast w = w"
    by (simp add: int_cast_id)
  with eq show "widthsChosen (new env L st) = [w]"
    by simp
qed

text \<open>
  The amended C2 at an annotation with explicit width 8 and no environment override, and
  at \<^verbatim>\<open>RV_FORCE_WIDTH=4\<close> without explicit width.
\<close>

theorem width_override_amended_witness:
  "costModelCalls (newCalls explicitState
      (snd (vectorizeLoop sampleCollab Map.empty sampleLoop explicitState))) = []
   \<and> widthsChosen (newCalls explicitState
      (snd (vectorizeLoop sampleCollab Map.empty sampleLoop explicitState))) = [8]
   \<and> costModelCalls (newCalls sampleState
      (snd (vectorizeLoop sampleCollab [''RV_FORCE_WIDTH'' \<mapsto> ''4''] sampleLoop sampleState))) = []
   \<and> widthsChosen (newCalls sampleState
      (snd (vectorizeLoop sampleCollab [''RV_FORCE_WIDTH'' \<mapsto> ''4''] sampleLoop sampleState))) = [4]"
  using width_override_amended [of Map.empty explicitState sampleLoop sampleCollab]
    width_override_amended [of "[''RV_FORCE_WIDTH'' \<mapsto> ''4'']" sampleState sampleLoop sampleCollab]
    sample_gate
  by (simp add: explicitState_fields sampleLoop_fields atoi_samples int_cast_def)

text \<open>
  C2 as stated fails when both are present: the annotation carries the explicit width 8,
  \<^verbatim>\<open>RV_FORCE_WIDTH\<close> is 4, and the width chosen is 4.
\<close>

theorem width_override_counterexample:
  "explicitVectorWidth (annotations explicitState (loopId sampleLoop)) = Some 8
   \<and> widthsChosen (newCalls explicitState
        (snd (vectorizeLoop sampleCollab [''RV_FORCE_WIDTH'' \<mapsto> ''4''] sampleLoop explicitState)))
       = [4]"
  by (simp add: explicitState_fields vectorizeLoop_widthsChosen sample_gate chosenWidth_env
      atoi_samples)


subsection \<open>The sign of the width\<close>

lemma strtol10_samples:
  "strtol10 ''4'' = 4" "strtol10 ''0'' = 0" "strtol10 ''-4'' = - 4"
  "strtol10 ''2147483648'' = 2147483648"
  by (simp_all add: strtol10_def isspace_def isdigit_def)

lemma atoi_bounds: "- 2147483648 \<le> atoi t \<and> atoi t \<le> 2147483647"
  by (simp add: atoi_def int_cast_bounds)

lemma atoi_in_range:
  "- 2147483648 \<le> strtol10 t \<Longrightarrow> strtol10 t \<le> 2147483647 \<Longrightarrow> atoi t = strtol10 t"
  by (simp add: atoi_def int_cast_id)

text \<open>
  C9, as the code has it. When the pass commits to transforming a loop with width \<open>W\<close>:
  a width from \<^verbatim>\<open>RV_FORCE_WIDTH\<close> is the \<^verbatim>\<open>int\<close> that \<^verbatim>\<open>atoi\<close> returns for the text,
  unchecked; it is the number the text denotes, so at least 1, when that number is
  between 1 and 2147483647, and it is that number, so less than 1, when the number is
  between -2147483648 and 0. A width from an explicit annotation between 1 and
  2147483647 is that value, so at least 1; a width from the cost model, when the refined
  width is below 2147483648, is the refined width and at least 2.
\<close>

theorem width_positive_amended:
  assumes "widthsChosen (newCalls st (snd (vectorizeLoop C env L st))) = [W]"
  shows "(\<forall>t. env ''RV_FORCE_WIDTH'' = Some t
             \<longrightarrow> W = atoi t \<and> - 2147483648 \<le> W \<and> W \<le> 2147483647
                 \<and> (1 \<le> strtol10 t \<and> strtol10 t \<le> 2147483647 \<longrightarrow> W = strtol10 t \<and> 1 \<le> W)
                 \<and> (- 2147483648 \<le> strtol10 t \<and> strtol10 t \<le> 0
                      \<longrightarrow> W = strtol10 t \<and> W < 1))
       \<and> (\<forall>w. env ''RV_FORCE_WIDTH'' = None
               \<and> explicitVectorWidth (annotations st (loopId L)) = Some w
               \<and> 1 \<le> w \<and> w \<le> 2147483647
             \<longrightarrow> W = w \<and> 1 \<le> W)
       \<and> (env ''RV_FORCE_WIDTH'' = None
            \<and> explicitVectorWidth (annotations st (loopId L)) = None
            \<and> pickWidthForRegion C (ir st) (loopId L) (initialWidthOf (depDistOf C st L))
                < 2147483648
          \<longrightarrow> W = int (pickWidthForRegion C (ir st) (loopId L) (initialWidthOf (depDistOf C st L)))
              \<and> 2 \<le> W)"
proof -
  have cw: "chosenWidth C env L st = Some W"
    using assms by (simp add: vectorizeLoop_widthsChosen split: if_splits option.splits)
  show ?thesis
  proof (intro conjI impI allI)
    fix t
    assume "env ''RV_FORCE_WIDTH'' = Some t"
    with cw show W: "W = atoi t"
      by (simp add: chosenWidth_env)
    show "- 2147483648 \<le> W" "W \<le> 2147483647"
      using atoi_bounds [of t] by (simp_all add: W)
    {
      assume "1 \<le> strtol10 t \<and> strtol10 t \<le> 2147483647"
      then show "W = strtol10 t" "1 \<le> W"
        by (simp_all add: W atoi_in_range)
    }
    {
      assume "- 2147483648 \<le> strtol10 t \<and> strtol10 t \<le> 0"
      then show "W = strtol10 t" "W < 1"
        by (simp_all add: W atoi_in_range)
    }
  next
    fix w
    assume w: "env ''RV_FORCE_WIDTH'' = None
               \<and> explicitVectorWidth (annotations st (loopId L)) = Some w
               \<and> 1 \<le> w \<and> w \<le> 2147483647"
    then have "int_cast w = w"
      by (simp add: int_cast_id)
    with cw w show "W = w" "1 \<le> W"
      by (simp_all add: chosenWidth_explicit)
  next
    let ?r = "pickWidthForRegion C (ir st) (loopId L) (initialWidthOf (depDistOf C st L))"
    assume a: "env ''RV_FORCE_WIDTH'' = None
               \<and> explicitVectorWidth (annotations st (loopId L)) = None
               \<and> ?r < 2147483648"
    have "1 < ?r \<and> (?r < 2147483648 \<longrightarrow> W = int ?r)"
      using a cw
      by (intro widthSelect_costModel [of env "effectiveAnnotation C st L" C L _ st])
         (simp_all add: explicit_effectiveAnnotation chosenWidth_def)
    with a show "W = int ?r" "2 \<le> W"
      by simp_all
  qed
qed

text \<open>
  The amended C9 at a parallel loop for which the cost model answers 8, and at
  \<^verbatim>\<open>RV_FORCE_WIDTH=4\<close>.
\<close>

theorem width_positive_amended_witness:
  "widthsChosen (newCalls sampleState
      (snd (vectorizeLoop sampleCollab Map.empty sampleLoop sampleState))) = [8]
   \<and> (2::int) \<le> 8
   \<and> widthsChosen (newCalls sampleState
      (snd (vectorizeLoop sampleCollab [''RV_FORCE_WIDTH'' \<mapsto> ''4''] sampleLoop sampleState)))
     = [4]
   \<and> strtol10 ''4'' = 4 \<and> atoi ''4'' = 4 \<and> (1::int) \<le> 4"
  using width_positive_amended [of sampleState sampleCollab Map.empty sampleLoop 8]
    width_positive_amended [of sampleState sampleCollab "[''RV_FORCE_WIDTH'' \<mapsto> ''4'']"
      sampleLoop 4]
  by (simp add: vectorizeLoop_widthsChosen sample_gate sample_chosenWidth chosenWidth_env
      atoi_samples strtol10_samples)

text \<open>
  C9 as stated fails for \<^verbatim>\<open>RV_FORCE_WIDTH=0\<close>: the remainder transform is called with
  width 0; for \<^verbatim>\<open>RV_FORCE_WIDTH=-4\<close> the width is -4; and for
  \<^verbatim>\<open>RV_FORCE_WIDTH=2147483648\<close> it is -2147483648.
\<close>

theorem width_positive_counterexample:
  "transformCalls (newCalls sampleState
      (snd (vectorizeLoop sampleCollab [''RV_FORCE_WIDTH'' \<mapsto> ''0''] sampleLoop sampleState)))
     = [CreateVectorizableLoop 7 0 16]
   \<and> widthsChosen (newCalls sampleState
      (snd (vectorizeLoop sampleCollab [''RV_FORCE_WIDTH'' \<mapsto> ''0''] sampleLoop sampleState)))
     = [0]
   \<and> widthsChosen (newCalls sampleState
      (snd (vectorizeLoop sampleCollab [''RV_FORCE_WIDTH'' \<mapsto> ''-4''] sampleLoop sampleState)))
     = [- 4]
   \<and> widthsChosen (newCalls sampleState
      (snd (vectorizeLoop sampleCollab [''RV_FORCE_WIDTH'' \<mapsto> ''2147483648''] sampleLoop
         sampleState)))
     = [- 2147483648]"
  by (simp add: vectorizeLoop_widthsChosen vectorizeLoop_transformCalls sample_gate
      chosenWidth_env atoi_samples sampleLoop_fields sample_tripAlignment)

subsection \<open>The exit shape\<close>

lemma introduced_widthSelect [simp]:
  "introduced (snd (widthSelect C env L md dd st)) = introduced st"
  by (simp add: widthSelect_state)

lemma vectorizeLoop_transform_fails:
  assumes "passesGate C st L" and "chosenWidth C env L st = Some W"
    and "createVectorizableLoop C (ir st) L W (getTripAlignment L) = (ir st, None)"
  shows "fst (vectorizeLoop C env L st) = Inr False"
    and "ir (snd (vectorizeLoop C env L st)) = ir st"
    and "annotations (snd (vectorizeLoop C env L st)) = annotations st"
    and "introduced (snd (vectorizeLoop C env L st)) = introduced st"
  using assms by (simp_all add: vectorizeLoop_gate Let_def)

lemma vectorizeLoop_no_width:
  assumes "passesGate C st L" and "chosenWidth C env L st = None"
  shows "fst (vectorizeLoop C env L st) = Inr False"
    and "ir (snd (vectorizeLoop C env L st)) = ir st"
    and "annotations (snd (vectorizeLoop C env L st)) = annotations st"
    and "introduced (snd (vectorizeLoop C env L st)) = introduced st"
  using assms by (simp_all add: vectorizeLoop_gate Let_def)

text \<open>
  C6, as the code has it. A loop without a single exiting block ending in a branch is
  rejected, given a remainder transform that fails on such a loop and leaves the IR
  alone: \<open>vectorizeLoop\<close> returns false, the engine is not called, and IR, annotations and
  banner flag are as before. The rejection is not made at the gate, which has no check
  of the exit shape (\<open>canVectorizeLoop\<close> is not called): when the loop passes the
  annotation gate the width is selected, with the cost model called unless the width is
  fixed, and when a width is chosen the remainder transform is called on the loop.
\<close>

theorem exit_shape_amended:
  assumes "exitingTerminator L \<noteq> Some BranchInst" and "failsOnUnsupportedExit C"
  shows "fst (vectorizeLoop C env L st) = Inr False
       \<and> engineCalls (newCalls st (snd (vectorizeLoop C env L st))) = []
       \<and> ir (snd (vectorizeLoop C env L st)) = ir st
       \<and> annotations (snd (vectorizeLoop C env L st)) = annotations st
       \<and> introduced (snd (vectorizeLoop C env L st)) = introduced st
       \<and> costModelCalls (newCalls st (snd (vectorizeLoop C env L st)))
           = (if passesGate C st L then costPart C env L st else [])
       \<and> transformCalls (newCalls st (snd (vectorizeLoop C env L st)))
           = (if passesGate C st L
              then (case chosenWidth C env L st of
                      None \<Rightarrow> []
                    | Some W \<Rightarrow> [CreateVectorizableLoop (loopId L) W (getTripAlignment L)])
              else [])"
proof -
  have rejected: "fst (vectorizeLoop C env L st) = Inr False
      \<and> ir (snd (vectorizeLoop C env L st)) = ir st
      \<and> annotations (snd (vectorizeLoop C env L st)) = annotations st
      \<and> introduced (snd (vectorizeLoop C env L st)) = introduced st"
  proof (cases "passesGate C st L")
    case False
    then show ?thesis
      by (simp add: vectorizeLoop_not_gate)
  next
    case gate: True
    show ?thesis
    proof (cases "chosenWidth C env L st")
      case None
      with gate show ?thesis
        by (simp add: vectorizeLoop_no_width)
    next
      case (Some W)
      have "createVectorizableLoop C (ir st) L W (getTripAlignment L) = (ir st, None)"
        using assms by (simp add: failsOnUnsupportedExit_def)
      with gate Some show ?thesis
        by (simp add: vectorizeLoop_transform_fails)
    qed
  qed
  then have "engineCalls (newCalls st (snd (vectorizeLoop C env L st))) = []"
    by (simp add: vectorizeLoop_engineCalls enginePart_def split: option.splits)
  with rejected show ?thesis
    by (simp add: vectorizeLoop_costModelCalls vectorizeLoop_transformCalls)
qed

text \<open>
  The amended C6 at a parallel loop without exiting block and a remainder transform that
  fails on such loops.
\<close>

theorem exit_shape_amended_witness:
  "fst (vectorizeLoop rejectingCollab Map.empty noExitLoop sampleState) = Inr False
   \<and> engineCalls (newCalls sampleState
      (snd (vectorizeLoop rejectingCollab Map.empty noExitLoop sampleState))) = []
   \<and> ir (snd (vectorizeLoop rejectingCollab Map.empty noExitLoop sampleState)) = ir sampleState
   \<and> annotations (snd (vectorizeLoop rejectingCollab Map.empty noExitLoop sampleState))
       = annotations sampleState
   \<and> transformCalls (newCalls sampleState
      (snd (vectorizeLoop rejectingCollab Map.empty noExitLoop sampleState)))
     = [CreateVectorizableLoop 7 8 16]"
proof -
  have shape: "exitingTerminator noExitLoop \<noteq> Some BranchInst"
    by (simp add: noExitLoop_fields)
  have fails: "failsOnUnsupportedExit rejectingCollab"
    by (simp add: failsOnUnsupportedExit_def rejectingCollab_fields)
  show ?thesis
    using exit_shape_amended [OF shape fails, of Map.empty sampleState]
    by (simp add: noExitLoop_fields sample_gate sample_chosenWidth sample_tripAlignment)
qed

lemma vectorizeLoop_accepted:
  assumes "passesGate C st L" and "chosenWidth C env L st = Some W"
    and "createVectorizableLoop C (ir st) L W (getTripAlignment L) = (i', Some (P, uni))"
    and "classifyHeader C i' P W (header P) [] = Some pinned"
    and "\<And>i. getLoopPreheader C i (loopId L)"
    and "\<And>vi i. snd (vectorize C vi i)"
  shows "fst (vectorizeLoop C env L st) = Inr True"
  using assms
  by (simp add: vectorizeLoop_gate Let_def vectorizePrepared_accepted [where pinned = pinned])

lemma vectorizeLoop_late_rejection:
  assumes "passesGate C st L" and "chosenWidth C env L st = Some W"
    and "createVectorizableLoop C (ir st) L W (getTripAlignment L) = (i', Some (P, uni))"
    and "classifyHeader C i' P W (header P) [] = None"
  shows "fst (vectorizeLoop C env L st) = Inr False"
    and "ir (snd (vectorizeLoop C env L st)) = i'"
    and "preparedId P \<noteq> loopId L
           \<Longrightarrow> alreadyVectorized (annotations (snd (vectorizeLoop C env L st)) (loopId L))
                 = Some True"
  using assms
  by (simp_all add: vectorizeLoop_gate Let_def vectorizePrepared_rejected marked_fields
      marked_alreadyVectorized)

text \<open>
  C6 as stated fails for a parallel loop without a single exiting block: the loop is not
  turned away untried, the cost model and the remainder transform are called for it, and
  it is that transform, failing on the loop, that rejects it.
\<close>

theorem exit_shape_counterexample:
  "exitingTerminator noExitLoop = None
   \<and> \<not> canVectorizeLoop noExitLoop
   \<and> costModelCalls (newCalls sampleState
        (snd (vectorizeLoop rejectingCollab Map.empty noExitLoop sampleState)))
       = [PickWidthForRegion 7 18446744073709551615]
   \<and> transformCalls (newCalls sampleState
        (snd (vectorizeLoop rejectingCollab Map.empty noExitLoop sampleState)))
       = [CreateVectorizableLoop 7 8 16]
   \<and> createVectorizableLoop rejectingCollab (ir sampleState) noExitLoop 8 16 = (0, None)"
  by (simp add: noExitLoop_fields canVectorizeLoop_def vectorizeLoop_costModelCalls
      vectorizeLoop_transformCalls sample_gate sample_chosenWidth sample_tripAlignment
      costPart_def effectiveAnnotation_def GetLoopAnnotation_def sampleState_fields emptyMD_def
      parallel_depDistOf rejectingCollab_fields initialWidth_parallel)

subsection \<open>Reduction legality\<close>

lemma usersSupported_iff:
  "usersSupported bs elems us \<longleftrightarrow>
     (\<forall>u\<in>set us. u \<noteq> NonInstructionUser
        \<and> (\<forall>v b. u = InstructionUser v b \<longrightarrow> b \<in> set bs \<longrightarrow> v \<in> set elems))"
  by (induction bs elems us rule: usersSupported.induct) auto

lemma elementsSupported_iff:
  "elementsSupported bs elems insts \<longleftrightarrow> (\<forall>inst\<in>set insts. usersSupported bs elems (users inst))"
  by (induction insts) auto

lemma IsSupportedReduction_iff:
  "IsSupportedReduction P red \<longleftrightarrow>
     (\<forall>inst\<in>set (elements red). \<forall>u\<in>set (users inst).
        u \<noteq> NonInstructionUser
        \<and> (\<forall>v b. u = InstructionUser v b \<longrightarrow> b \<in> set (blocks P)
              \<longrightarrow> v \<in> set (map instId (elements red))))"
  by (simp add: IsSupportedReduction_def elementsSupported_iff usersSupported_iff)

lemma classifyHeader_unsupported:
  assumes "PHINode phi \<in> set insts" and "getStrideInfo C i phi = None"
    and "getReductionInfo C i phi = Some red" and "\<not> IsSupportedReduction P red"
  shows "classifyHeader C i P W insts pinned = None"
  using assms(1)
proof (induction insts arbitrary: pinned)
  case Nil
  then show ?case by simp
next
  case (Cons x xs)
  show ?case
  proof (cases x)
    case (OtherInst v)
    with Cons show ?thesis by simp
  next
    case (PHINode q)
    show ?thesis
    proof (cases "q = phi")
      case True
      with PHINode assms(2-4) show ?thesis by simp
    next
      case False
      with PHINode Cons.prems have "PHINode phi \<in> set xs" by simp
      then have "\<And>p. classifyHeader C i P W xs p = None"
        by (rule Cons.IH)
      with PHINode show ?thesis
        by (simp add: Let_def split: option.splits)
    qed
  qed
qed

text \<open>
  C5, as the code has it. When a header phi of the prepared loop has no stride pattern
  and its reduction descriptor has an element with a user that is not an instruction, or
  that lies inside the prepared loop and outside the element set, \<open>vectorizeLoop\<close>
  returns false and the engine is not called.
\<close>

theorem reduction_legality_amended:
  assumes "passesGate C st L" and "chosenWidth C env L st = Some W"
    and "createVectorizableLoop C (ir st) L W (getTripAlignment L) = (i', Some (P, uni))"
    and "PHINode phi \<in> set (header P)"
    and "getStrideInfo C i' phi = None" and "getReductionInfo C i' phi = Some red"
    and "inst \<in> set (elements red)" and "u \<in> set (users inst)"
    and "u = NonInstructionUser
         \<or> (\<exists>v b. u = InstructionUser v b \<and> b \<in> set (blocks P)
                \<and> v \<notin> set (map instId (elements red)))"
  shows "fst (vectorizeLoop C env L st) = Inr False
       \<and> engineCalls (newCalls st (snd (vectorizeLoop C env L st))) = []"
proof -
  have "\<not> IsSupportedReduction P red"
    using assms(7-9) unfolding IsSupportedReduction_iff by blast
  then have "classifyHeader C i' P W (header P) [] = None"
    using assms(4-6) by (intro classifyHeader_unsupported)
  then have f: "fst (vectorizeLoop C env L st) = Inr False"
    using assms(1-3) by (intro vectorizeLoop_late_rejection(1))
  then show ?thesis
    using assms(1,2) by (simp add: vectorizeLoop_engineCalls enginePart_def)
qed

text \<open>
  The amended C5 at a reduction whose addition is used by instruction 7 in block 11 of
  the loop.
\<close>

theorem reduction_legality_amended_witness:
  "fst (vectorizeLoop leakyCollab Map.empty sampleLoop sampleState) = Inr False
   \<and> engineCalls (newCalls sampleState
        (snd (vectorizeLoop leakyCollab Map.empty sampleLoop sampleState))) = []"
  using reduction_legality_amended [of leakyCollab sampleState sampleLoop Map.empty 8 1
      samplePrepared "[40]" 2 leakyReduction
      "\<lparr>instId = 5, users = [InstructionUser 2 10, InstructionUser 7 11]\<rparr>"
      "InstructionUser 7 11"]
  by (simp add: sample_gate sample_chosenWidth leakyCollab_fields sampleState_fields
      samplePrepared_fields leakyReduction_def)

text \<open>
  C5 as stated fails: the addition of \<open>sumReduction\<close> has the user 9 in block 20, outside
  the element set and outside the loop; the descriptor is supported and the loop is
  vectorized.
\<close>

theorem reduction_legality_counterexample:
  "getStrideInfo sampleCollab 1 2 = None
   \<and> getReductionInfo sampleCollab 1 2 = Some sumReduction
   \<and> \<lparr>instId = 5, users = [InstructionUser 2 10, InstructionUser 9 20]\<rparr>
        \<in> set (elements sumReduction)
   \<and> 9 \<notin> set (map instId (elements sumReduction))
   \<and> 20 \<notin> set (blocks samplePrepared)
   \<and> IsSupportedReduction samplePrepared sumReduction
   \<and> fst (vectorizeLoop sampleCollab Map.empty sampleLoop sampleState) = Inr True"
proof -
  have "fst (vectorizeLoop sampleCollab Map.empty sampleLoop sampleState) = Inr True"
    by (rule vectorizeLoop_accepted [where W = 8 and i' = 1 and P = samplePrepared
          and uni = "[40]" and pinned = "[(1, Strided 1), (2, Varying)]"])
       (simp_all add: sample_gate sample_chosenWidth sampleCollab_fields sampleState_fields
          sample_classify)
  then show ?thesis
    by (simp add: sampleCollab_fields sample_supported samplePrepared_fields)
       (simp add: sumReduction_def)
qed

subsection \<open>Skips after the remainder transform\<close>

text \<open>
  C4 fails in the code for a skip at an unsupported reduction: \<open>vectorizeLoop\<close> returns
  false after the remainder transform has changed the IR (from 0 to 1 change) and after
  \<^verbatim>\<open>alreadyVectorized\<close> has been written to the annotation of the loop.
\<close>

theorem late_skip_modifies_loop:
  "fst (vectorizeLoop leakyCollab Map.empty sampleLoop sampleState) = Inr False
   \<and> ir sampleState = 0
   \<and> ir (snd (vectorizeLoop leakyCollab Map.empty sampleLoop sampleState)) = 1
   \<and> alreadyVectorized (annotations sampleState 7) = None
   \<and> alreadyVectorized
        (annotations (snd (vectorizeLoop leakyCollab Map.empty sampleLoop sampleState)) 7)
       = Some True"
proof -
  have c: "classifyHeader leakyCollab 1 samplePrepared 8 (header samplePrepared) [] = None"
    by (simp add: samplePrepared_fields leakyCollab_fields sample_supported isDefined_def)
  have g: "passesGate leakyCollab sampleState sampleLoop"
    and w: "chosenWidth leakyCollab Map.empty sampleLoop sampleState = Some 8"
    by (simp_all add: sample_gate sample_chosenWidth)
  have t: "createVectorizableLoop leakyCollab (ir sampleState) sampleLoop 8
             (getTripAlignment sampleLoop) = (1, Some (samplePrepared, [40]))"
    by (simp add: leakyCollab_fields sampleState_fields)
  show ?thesis
    using vectorizeLoop_late_rejection [OF g w t c]
    by (simp add: sampleState_fields sampleLoop_fields samplePrepared_fields emptyMD_def)
qed

subsection \<open>Loop nests\<close>

lemma forestOrder_forestLoops: "forestOrder Ls = map loopId (forestLoops Ls)"
  by (simp add: forestLoops_def forestOrder_def preorder_def [abs_def] map_concat comp_def)

lemma forestLoops_simps:
  "forestLoops [] = []" "forestLoops (S # rest) = loopsOf S @ forestLoops rest"
  by (simp_all add: forestLoops_def)

lemma forestOrder_simps:
  "forestOrder [] = []" "forestOrder (S # rest) = preorder S @ forestOrder rest"
  by (simp_all add: forestOrder_def)

lemma loopsOf_eq: "loopsOf L = L # forestLoops (subLoops L)"
  by (cases L) (simp add: forestLoops_def)

lemma preorder_eq: "preorder L = loopId L # forestOrder (subLoops L)"
  by (simp add: preorder_def loopsOf_eq [of L] forestOrder_forestLoops)

lemma forestLoops_id: "M \<in> set (forestLoops Ls) \<Longrightarrow> loopId M \<in> set (forestOrder Ls)"
  by (simp add: forestOrder_forestLoops)

lemma loopsOf_id: "M \<in> set (loopsOf L) \<Longrightarrow> loopId M \<in> set (preorder L)"
  by (simp add: preorder_def)

lemma preorder_in_forestOrder: "S \<in> set Ls \<Longrightarrow> set (preorder S) \<subseteq> set (forestOrder Ls)"
  by (auto simp: forestOrder_def)

lemma top_in_forestOrder: "S \<in> set Ls \<Longrightarrow> loopId S \<in> set (forestOrder Ls)"
  using preorder_in_forestOrder [of S Ls] by (auto simp: preorder_eq [of S])

lemma descendants_loopsOf:
  "M \<in> set (loopsOf L) \<Longrightarrow> set (forestOrder (subLoops M)) \<subseteq> set (forestOrder (subLoops L))"
proof (induction L rule: loopsOf.induct)
  case (1 l par ex btc subs)
  show ?case
  proof (cases "M = Loop l par ex btc subs")
    case True
    then show ?thesis by simp
  next
    case False
    with 1(2) obtain S where S: "S \<in> set subs" "M \<in> set (loopsOf S)"
      by auto
    then have "set (forestOrder (subLoops M)) \<subseteq> set (forestOrder (subLoops S))"
      by (rule 1(1))
    also have "\<dots> \<subseteq> set (preorder S)"
      by (auto simp: preorder_eq [of S])
    also have "\<dots> \<subseteq> set (forestOrder subs)"
      using S(1) by (rule preorder_in_forestOrder)
    finally show ?thesis by simp
  qed
qed

lemma descendants_preorder:
  "M \<in> set (loopsOf L) \<Longrightarrow> set (forestOrder (subLoops M)) \<subseteq> set (preorder L)"
  using descendants_loopsOf [of M L] by (auto simp: preorder_eq [of L])

lemma descendants_forestLoops:
  assumes "M \<in> set (forestLoops Ls)"
  shows "set (forestOrder (subLoops M)) \<subseteq> set (forestOrder Ls)"
proof -
  from assms obtain S where S: "S \<in> set Ls" "M \<in> set (loopsOf S)"
    by (auto simp: forestLoops_def)
  then have "set (forestOrder (subLoops M)) \<subseteq> set (preorder S)"
    by (intro descendants_preorder)
  also have "\<dots> \<subseteq> set (forestOrder Ls)"
    using S(1) by (rule preorder_in_forestOrder)
  finally show ?thesis .
qed

lemma subLoop_descendant: "S \<in> set (subLoops M) \<Longrightarrow> loopId S \<in> set (forestOrder (subLoops M))"
  by (rule top_in_forestOrder)

lemma subseq_subset: "subseq xs ys \<Longrightarrow> set xs \<subseteq> set ys"
  using list_emb_set [of "(=)" xs ys] by auto

subsection \<open>Composing traversals\<close>

lemma traversalInv_Nil: "traversalInv [] []"
  by (simp add: traversalInv_def depthFirst_def subLoopsSkipped_def subLoopsTried_def
      reads_Nil forestOrder_simps forestLoops_simps)

lemma traversalInv_Cons:
  assumes d: "distinct (forestOrder (S # rest))"
    and 1: "traversalInv [S] n1" and 2: "traversalInv rest n2"
  shows "traversalInv (S # rest) (n1 @ n2)"
proof -
  have disj: "set (preorder S) \<inter> set (forestOrder rest) = {}"
    using d by (simp add: forestOrder_simps)
  have v1: "set (visited n1) \<subseteq> set (preorder S)"
    using 1 by (auto simp: traversalInv_def depthFirst_def forestOrder_simps dest: subseq_subset)
  have v2: "set (visited n2) \<subseteq> set (forestOrder rest)"
    using 2 by (auto simp: traversalInv_def depthFirst_def dest: subseq_subset)
  have z1: "set (vectorizedLoops n1) \<subseteq> set (visited n1)"
    using 1 by (simp add: traversalInv_def depthFirst_def)
  have z2: "set (vectorizedLoops n2) \<subseteq> set (visited n2)"
    using 2 by (simp add: traversalInv_def depthFirst_def)
  have s1: "subseq (visited n1) (preorder S)"
    using 1 by (simp add: traversalInv_def depthFirst_def forestOrder_simps)
  have s2: "subseq (visited n2) (forestOrder rest)"
    using 2 by (simp add: traversalInv_def depthFirst_def)
  have t1: "loopId S \<in> set (visited n1)"
    using 1 by (simp add: traversalInv_def depthFirst_def)
  have t2: "\<forall>T\<in>set rest. loopId T \<in> set (visited n2)"
    using 2 by (simp add: traversalInv_def depthFirst_def)
  have df: "depthFirst (S # rest) (n1 @ n2)"
    unfolding depthFirst_def
    using s1 s2 t1 t2 z1 z2
    by (auto simp: reads_append forestOrder_simps intro: list_emb_append_mono)
  have sk: "subLoopsSkipped (S # rest) (n1 @ n2)"
    unfolding subLoopsSkipped_def
  proof (intro ballI impI)
    fix M x
    assume M: "M \<in> set (forestLoops (S # rest))"
      and z: "loopId M \<in> set (vectorizedLoops (n1 @ n2))"
      and x: "x \<in> set (forestOrder (subLoops M))"
    from M consider "M \<in> set (loopsOf S)" | "M \<in> set (forestLoops rest)"
      by (auto simp: forestLoops_simps)
    then show "x \<notin> set (visited (n1 @ n2))"
    proof cases
      case 1
      then have i: "loopId M \<in> set (preorder S)" and xs: "x \<in> set (preorder S)"
        using x descendants_preorder [of M S] by (auto dest: loopsOf_id)
      with z z2 v2 disj have "loopId M \<in> set (vectorizedLoops n1)"
        by (auto simp: reads_append)
      with \<open>traversalInv [S] n1\<close> 1 x have "x \<notin> set (visited n1)"
        by (auto simp: traversalInv_def subLoopsSkipped_def forestLoops_simps)
      moreover have "x \<notin> set (visited n2)"
        using xs v2 disj by auto
      ultimately show ?thesis by (simp add: reads_append)
    next
      case 2
      then have i: "loopId M \<in> set (forestOrder rest)" and xs: "x \<in> set (forestOrder rest)"
        using x descendants_forestLoops [of M rest] by (auto dest: forestLoops_id)
      with z z1 v1 disj have "loopId M \<in> set (vectorizedLoops n2)"
        by (auto simp: reads_append)
      with \<open>traversalInv rest n2\<close> 2 x have "x \<notin> set (visited n2)"
        by (auto simp: traversalInv_def subLoopsSkipped_def)
      moreover have "x \<notin> set (visited n1)"
        using xs v1 disj by auto
      ultimately show ?thesis by (simp add: reads_append)
    qed
  qed
  have tr: "subLoopsTried (S # rest) (n1 @ n2)"
    unfolding subLoopsTried_def
  proof (intro ballI impI)
    fix M T
    assume M: "M \<in> set (forestLoops (S # rest))"
      and v: "loopId M \<in> set (visited (n1 @ n2))"
      and z: "loopId M \<notin> set (vectorizedLoops (n1 @ n2))"
      and T: "T \<in> set (subLoops M)"
    from M consider "M \<in> set (loopsOf S)" | "M \<in> set (forestLoops rest)"
      by (auto simp: forestLoops_simps)
    then show "loopId T \<in> set (visited (n1 @ n2))"
    proof cases
      case 1
      then have "loopId M \<in> set (preorder S)"
        by (rule loopsOf_id)
      with v v2 disj have "loopId M \<in> set (visited n1)"
        by (auto simp: reads_append)
      moreover from z have "loopId M \<notin> set (vectorizedLoops n1)"
        by (simp add: reads_append)
      ultimately have "loopId T \<in> set (visited n1)"
        using \<open>traversalInv [S] n1\<close> 1 T
        by (auto simp: traversalInv_def subLoopsTried_def forestLoops_simps)
      then show ?thesis by (simp add: reads_append)
    next
      case 2
      then have "loopId M \<in> set (forestOrder rest)"
        by (rule forestLoops_id)
      with v v1 disj have "loopId M \<in> set (visited n2)"
        by (auto simp: reads_append)
      moreover from z have "loopId M \<notin> set (vectorizedLoops n2)"
        by (simp add: reads_append)
      ultimately have "loopId T \<in> set (visited n2)"
        using \<open>traversalInv rest n2\<close> 2 T
        by (auto simp: traversalInv_def subLoopsTried_def)
      then show ?thesis by (simp add: reads_append)
    qed
  qed
  from df sk tr show ?thesis
    by (simp add: traversalInv_def)
qed

lemma traversalInv_vectorized:
  assumes d: "distinct (preorder L)"
    and v: "visited n = [loopId L]" and z: "vectorizedLoops n = [loopId L]"
  shows "traversalInv [L] n"
proof -
  have notin: "loopId L \<notin> set (forestOrder (subLoops L))"
    using d by (simp add: preorder_eq [of L])
  have df: "depthFirst [L] n"
    by (simp add: depthFirst_def v z forestOrder_simps preorder_eq [of L])
  have sk: "subLoopsSkipped [L] n"
    unfolding subLoopsSkipped_def
  proof (intro ballI impI)
    fix M x
    assume "M \<in> set (forestLoops [L])" and "x \<in> set (forestOrder (subLoops M))"
    then have "x \<in> set (forestOrder (subLoops L))"
      using descendants_loopsOf [of M L] by (auto simp: forestLoops_simps)
    with notin show "x \<notin> set (visited n)"
      by (auto simp: v)
  qed
  have tr: "subLoopsTried [L] n"
    by (simp add: subLoopsTried_def v z)
  from df sk tr show ?thesis
    by (simp add: traversalInv_def)
qed

lemma traversalInv_rejected:
  assumes d: "distinct (preorder L)"
    and v: "visited n0 = [loopId L]" and z: "vectorizedLoops n0 = []"
    and sub: "traversalInv (subLoops L) n'"
  shows "traversalInv [L] (n0 @ n')"
proof -
  have notin: "loopId L \<notin> set (forestOrder (subLoops L))"
    using d by (simp add: preorder_eq [of L])
  have s': "subseq (visited n') (forestOrder (subLoops L))"
    and t': "\<forall>T\<in>set (subLoops L). loopId T \<in> set (visited n')"
    and z': "set (vectorizedLoops n') \<subseteq> set (visited n')"
    using sub by (simp_all add: traversalInv_def depthFirst_def)
  have v': "set (visited n') \<subseteq> set (forestOrder (subLoops L))"
    using s' by (rule subseq_subset)
  have df: "depthFirst [L] (n0 @ n')"
    using s' z' by (auto simp: depthFirst_def reads_append v z forestOrder_simps preorder_eq [of L])
  have sk: "subLoopsSkipped [L] (n0 @ n')"
    unfolding subLoopsSkipped_def
  proof (intro ballI impI)
    fix M x
    assume M: "M \<in> set (forestLoops [L])"
      and zz: "loopId M \<in> set (vectorizedLoops (n0 @ n'))"
      and x: "x \<in> set (forestOrder (subLoops M))"
    from zz have zm: "loopId M \<in> set (vectorizedLoops n')"
      by (simp add: reads_append z)
    with z' v' notin have "M \<noteq> L"
      by auto
    with M have M': "M \<in> set (forestLoops (subLoops L))"
      by (simp add: forestLoops_simps loopsOf_eq [of L])
    with sub zm x have "x \<notin> set (visited n')"
      by (auto simp: traversalInv_def subLoopsSkipped_def)
    moreover have "x \<noteq> loopId L"
      using descendants_forestLoops [OF M'] x notin by auto
    ultimately show "x \<notin> set (visited (n0 @ n'))"
      by (simp add: reads_append v)
  qed
  have tr: "subLoopsTried [L] (n0 @ n')"
    unfolding subLoopsTried_def
  proof (intro ballI impI)
    fix M T
    assume M: "M \<in> set (forestLoops [L])"
      and vv: "loopId M \<in> set (visited (n0 @ n'))"
      and zz: "loopId M \<notin> set (vectorizedLoops (n0 @ n'))"
      and T: "T \<in> set (subLoops M)"
    show "loopId T \<in> set (visited (n0 @ n'))"
    proof (cases "M = L")
      case True
      with T t' show ?thesis
        by (simp add: reads_append)
    next
      case False
      with M have M': "M \<in> set (forestLoops (subLoops L))"
        by (simp add: forestLoops_simps loopsOf_eq [of L])
      then have "loopId M \<noteq> loopId L"
        using forestLoops_id [OF M'] notin by auto
      with vv have "loopId M \<in> set (visited n')"
        by (simp add: reads_append v)
      moreover from zz have "loopId M \<notin> set (vectorizedLoops n')"
        by (simp add: reads_append)
      ultimately have "loopId T \<in> set (visited n')"
        using sub M' T by (auto simp: traversalInv_def subLoopsTried_def)
      then show ?thesis by (simp add: reads_append)
    qed
  qed
  from df sk tr show ?thesis
    by (simp add: traversalInv_def)
qed


subsection \<open>The traversal\<close>

lemma vectorizeLoopOrSubLoops_eq:
  "vectorizeLoopOrSubLoops C env L st =
     (case fst (vectorizeLoop C env L st) of
        Inl f \<Rightarrow> vectorizeLoop C env L st
      | Inr ok \<Rightarrow>
          if ok then vectorizeLoop C env L st
          else vectorizeLoops C env (subLoops L) False (snd (vectorizeLoop C env L st)))"
  by (cases L) (auto split: prod.splits sum.splits)

lemma vectorizeLoops_Cons_eq:
  "vectorizeLoops C env (S # rest) c st =
     (case fst (vectorizeLoopOrSubLoops C env S st) of
        Inl f \<Rightarrow> vectorizeLoopOrSubLoops C env S st
      | Inr c1 \<Rightarrow> vectorizeLoops C env rest (c \<or> c1) (snd (vectorizeLoopOrSubLoops C env S st)))"
  by (auto split: prod.splits sum.splits)

lemma vectorizeLoops_Nil: "vectorizeLoops C env [] c st = (Inr c, st)"
  by simp

declare vectorizeLoopOrSubLoops.simps [simp del] vectorizeLoops.simps [simp del]

lemma extendsI: "calls st' = calls st @ cs \<Longrightarrow> extends st st'"
  by (simp add: extends_def newCalls_def)

lemma extends_refl: "extends st st"
  by (simp add: extends_def newCalls_def)

lemma extends_trans: "extends st st1 \<Longrightarrow> extends st1 st2 \<Longrightarrow> extends st st2"
  by (metis append.assoc extendsI extends_def)

lemma newCalls_trans:
  "extends st st1 \<Longrightarrow> extends st1 st2 \<Longrightarrow> newCalls st st2 = newCalls st st1 @ newCalls st1 st2"
  by (metis append.assoc extends_def newCalls_append)

lemma newCalls_refl: "newCalls st st = []"
  by (simp add: newCalls_def)

lemma vectorizeLoop_extends: "extends st (snd (vectorizeLoop C env L st))"
  by (rule extendsI) (rule vectorizeLoop_calls)

lemma vectorizeLoops_extends:
  assumes "\<And>S st. S \<in> set Ls \<Longrightarrow> extends st (snd (vectorizeLoopOrSubLoops C env S st))"
  shows "extends st (snd (vectorizeLoops C env Ls c st))"
  using assms
proof (induction Ls arbitrary: c st)
  case Nil
  show ?case by (simp add: vectorizeLoops_Nil extends_refl)
next
  case (Cons S rest)
  have 1: "extends st (snd (vectorizeLoopOrSubLoops C env S st))"
    by (rule Cons.prems) simp
  have 2: "extends st' (snd (vectorizeLoops C env rest c' st'))" for c' st'
    by (rule Cons.IH) (simp add: Cons.prems)
  show ?case
    using 1 extends_trans [OF 1 2]
    by (simp add: vectorizeLoops_Cons_eq split: sum.splits)
qed

lemma vectorizeLoopOrSubLoops_extends:
  "extends st (snd (vectorizeLoopOrSubLoops C env L st))"
proof (induction L arbitrary: st)
  case (Loop l par ex btc subs)
  let ?L = "Loop l par ex btc subs"
  have 1: "extends st (snd (vectorizeLoop C env ?L st))"
    by (rule vectorizeLoop_extends)
  have 2: "extends st' (snd (vectorizeLoops C env subs c st'))" for c st'
    by (rule vectorizeLoops_extends) (rule Loop.IH)
  show ?case
    using 1 extends_trans [OF 1 2]
    by (simp add: vectorizeLoopOrSubLoops_eq [of C env ?L] split: sum.splits)
qed

lemma vectorizeLoops_extends_all: "extends st (snd (vectorizeLoops C env Ls c st))"
  by (rule vectorizeLoops_extends) (rule vectorizeLoopOrSubLoops_extends)

lemma vectorizeLoop_vectorizedLoops:
  assumes "fst (vectorizeLoop C env L st) = Inr ok"
  shows "vectorizedLoops (newCalls st (snd (vectorizeLoop C env L st)))
           = (if ok then [loopId L] else [])"
proof (cases "passesGate C st L")
  case False
  then show ?thesis
    using assms by (simp add: vectorizeLoop_not_gate newCalls_def vectorizedLoops_def)
next
  case True
  show ?thesis
  proof (cases "chosenWidth C env L st")
    case None
    with True have "fst (vectorizeLoop C env L st) = Inr False"
      by (simp add: vectorizeLoop_gate Let_def)
    with assms have "\<not> ok"
      by simp
    with True None show ?thesis
      by (simp add: vectorizeLoop_newCalls reads_append reads_Cons reads_Nil costPart_reads)
  next
    case (Some W)
    with True assms show ?thesis
      by (simp add: vectorizeLoop_newCalls reads_append reads_Cons reads_Nil costPart_reads
          enginePart_reads)
  qed
qed

text \<open>The invariant and the result, for a forest and for a loop.\<close>

lemma vectorizeLoops_traversal:
  assumes IH: "\<And>S st ch. S \<in> set Ls \<Longrightarrow> fst (vectorizeLoopOrSubLoops C env S st) = Inr ch
                 \<Longrightarrow> distinct (preorder S)
                 \<Longrightarrow> traversalInv [S] (newCalls st (snd (vectorizeLoopOrSubLoops C env S st)))"
    and ok: "fst (vectorizeLoops C env Ls c st) = Inr ch"
    and d: "distinct (forestOrder Ls)"
  shows "traversalInv Ls (newCalls st (snd (vectorizeLoops C env Ls c st)))"
  using assms
proof (induction Ls arbitrary: c st)
  case Nil
  show ?case by (simp add: vectorizeLoops_Nil newCalls_refl traversalInv_Nil)
next
  case (Cons S rest)
  let ?r1 = "vectorizeLoopOrSubLoops C env S st"
  from Cons.prems(2) obtain c1 where c1: "fst ?r1 = Inr c1"
    by (auto simp: vectorizeLoops_Cons_eq split: sum.splits)
  let ?r2 = "vectorizeLoops C env rest (c \<or> c1) (snd ?r1)"
  have r: "vectorizeLoops C env (S # rest) c st = ?r2"
    using c1 by (simp add: vectorizeLoops_Cons_eq)
  have dS: "distinct (preorder S)" and dR: "distinct (forestOrder rest)"
    using Cons.prems(3) by (simp_all add: forestOrder_simps)
  have 1: "traversalInv [S] (newCalls st (snd ?r1))"
    using c1 dS by (intro Cons.prems(1)) simp_all
  have 2: "traversalInv rest (newCalls (snd ?r1) (snd ?r2))"
    using Cons.prems(2) dR by (intro Cons.IH Cons.prems(1)) (simp_all add: r)
  have "newCalls st (snd ?r2) = newCalls st (snd ?r1) @ newCalls (snd ?r1) (snd ?r2)"
    by (intro newCalls_trans vectorizeLoopOrSubLoops_extends vectorizeLoops_extends_all)
  then show ?case
    using traversalInv_Cons [OF Cons.prems(3) 1 2] by (simp add: r)
qed

lemma vectorizeLoopOrSubLoops_traversal:
  assumes "fst (vectorizeLoopOrSubLoops C env L st) = Inr ch" and "distinct (preorder L)"
  shows "traversalInv [L] (newCalls st (snd (vectorizeLoopOrSubLoops C env L st)))"
  using assms
proof (induction L arbitrary: st ch)
  case (Loop l par ex btc subs)
  let ?L = "Loop l par ex btc subs"
  let ?r0 = "vectorizeLoop C env ?L st"
  from Loop.prems(1) obtain ok where ok: "fst ?r0 = Inr ok"
    by (auto simp: vectorizeLoopOrSubLoops_eq [of C env ?L] split: sum.splits)
  have v0: "visited (newCalls st (snd ?r0)) = [loopId ?L]"
    by (rule vectorizeLoop_visited)
  have z0: "vectorizedLoops (newCalls st (snd ?r0)) = (if ok then [loopId ?L] else [])"
    using ok by (rule vectorizeLoop_vectorizedLoops)
  show ?case
  proof (cases ok)
    case True
    then have "vectorizeLoopOrSubLoops C env ?L st = ?r0"
      using ok by (simp add: vectorizeLoopOrSubLoops_eq [of C env ?L])
    moreover have "traversalInv [?L] (newCalls st (snd ?r0))"
      using Loop.prems(2) v0 z0 True by (intro traversalInv_vectorized) simp_all
    ultimately show ?thesis by simp
  next
    case False
    let ?r1 = "vectorizeLoops C env subs False (snd ?r0)"
    have r: "vectorizeLoopOrSubLoops C env ?L st = ?r1"
      using ok False by (simp add: vectorizeLoopOrSubLoops_eq [of C env ?L])
    have dsub: "distinct (forestOrder subs)"
      using Loop.prems(2) by (simp add: preorder_eq [of ?L])
    have sub: "traversalInv subs (newCalls (snd ?r0) (snd ?r1))"
    proof (rule vectorizeLoops_traversal)
      show "fst ?r1 = Inr ch"
        using Loop.prems(1) by (simp add: r)
      show "distinct (forestOrder subs)"
        by (rule dsub)
    next
      fix S st' ch'
      assume "S \<in> set subs" "fst (vectorizeLoopOrSubLoops C env S st') = Inr ch'"
        "distinct (preorder S)"
      then show "traversalInv [S] (newCalls st' (snd (vectorizeLoopOrSubLoops C env S st')))"
        by (rule Loop.IH)
    qed
    have "newCalls st (snd ?r1) = newCalls st (snd ?r0) @ newCalls (snd ?r0) (snd ?r1)"
      by (intro newCalls_trans vectorizeLoop_extends vectorizeLoops_extends_all)
    moreover have "traversalInv [?L] (newCalls st (snd ?r0) @ newCalls (snd ?r0) (snd ?r1))"
      using Loop.prems(2) v0 z0 False sub by (intro traversalInv_rejected) simp_all
    ultimately show ?thesis by (simp add: r)
  qed
qed

lemma vectorizeLoops_traversal_all:
  assumes "fst (vectorizeLoops C env Ls c st) = Inr ch" and "distinct (forestOrder Ls)"
  shows "traversalInv Ls (newCalls st (snd (vectorizeLoops C env Ls c st)))"
  using assms(1,2)
  by (intro vectorizeLoops_traversal [where ch = ch] vectorizeLoopOrSubLoops_traversal)

subsection \<open>The result of a traversal\<close>

lemma vectorizeLoops_changed:
  assumes IH: "\<And>S st ch. S \<in> set Ls \<Longrightarrow> fst (vectorizeLoopOrSubLoops C env S st) = Inr ch
                 \<Longrightarrow> ch = (vectorizedLoops (newCalls st (snd (vectorizeLoopOrSubLoops C env S st))) \<noteq> [])"
    and ok: "fst (vectorizeLoops C env Ls c st) = Inr ch"
  shows "ch = (c \<or> vectorizedLoops (newCalls st (snd (vectorizeLoops C env Ls c st))) \<noteq> [])"
  using assms
proof (induction Ls arbitrary: c st)
  case Nil
  then show ?case by (simp add: vectorizeLoops_Nil newCalls_refl reads_Nil)
next
  case (Cons S rest)
  let ?r1 = "vectorizeLoopOrSubLoops C env S st"
  from Cons.prems(2) obtain c1 where c1: "fst ?r1 = Inr c1"
    by (auto simp: vectorizeLoops_Cons_eq split: sum.splits)
  let ?r2 = "vectorizeLoops C env rest (c \<or> c1) (snd ?r1)"
  have r: "vectorizeLoops C env (S # rest) c st = ?r2"
    using c1 by (simp add: vectorizeLoops_Cons_eq)
  have 1: "c1 = (vectorizedLoops (newCalls st (snd ?r1)) \<noteq> [])"
    using c1 by (intro Cons.prems(1)) simp_all
  have 2: "ch = ((c \<or> c1) \<or> vectorizedLoops (newCalls (snd ?r1) (snd ?r2)) \<noteq> [])"
    using Cons.prems(2) by (intro Cons.IH Cons.prems(1)) (simp_all add: r)
  have "newCalls st (snd ?r2) = newCalls st (snd ?r1) @ newCalls (snd ?r1) (snd ?r2)"
    by (intro newCalls_trans vectorizeLoopOrSubLoops_extends vectorizeLoops_extends_all)
  with 1 2 show ?case
    by (auto simp: r reads_append)
qed

lemma vectorizeLoopOrSubLoops_changed:
  assumes "fst (vectorizeLoopOrSubLoops C env L st) = Inr ch"
  shows "ch = (vectorizedLoops (newCalls st (snd (vectorizeLoopOrSubLoops C env L st))) \<noteq> [])"
  using assms
proof (induction L arbitrary: st ch)
  case (Loop l par ex btc subs)
  let ?L = "Loop l par ex btc subs"
  let ?r0 = "vectorizeLoop C env ?L st"
  from Loop.prems(1) obtain ok where ok: "fst ?r0 = Inr ok"
    by (auto simp: vectorizeLoopOrSubLoops_eq [of C env ?L] split: sum.splits)
  have z0: "vectorizedLoops (newCalls st (snd ?r0)) = (if ok then [loopId ?L] else [])"
    using ok by (rule vectorizeLoop_vectorizedLoops)
  show ?case
  proof (cases ok)
    case True
    then have "vectorizeLoopOrSubLoops C env ?L st = ?r0"
      using ok by (simp add: vectorizeLoopOrSubLoops_eq [of C env ?L])
    with Loop.prems ok True z0 show ?thesis by simp
  next
    case False
    let ?r1 = "vectorizeLoops C env subs False (snd ?r0)"
    have r: "vectorizeLoopOrSubLoops C env ?L st = ?r1"
      using ok False by (simp add: vectorizeLoopOrSubLoops_eq [of C env ?L])
    have "ch = (False \<or> vectorizedLoops (newCalls (snd ?r0) (snd ?r1)) \<noteq> [])"
    proof (rule vectorizeLoops_changed)
      show "fst ?r1 = Inr ch"
        using Loop.prems(1) by (simp add: r)
    next
      fix S st' ch'
      assume "S \<in> set subs" "fst (vectorizeLoopOrSubLoops C env S st') = Inr ch'"
      then show "ch' = (vectorizedLoops (newCalls st' (snd (vectorizeLoopOrSubLoops C env S st'))) \<noteq> [])"
        by (rule Loop.IH)
    qed
    moreover have "newCalls st (snd ?r1) = newCalls st (snd ?r0) @ newCalls (snd ?r0) (snd ?r1)"
      by (intro newCalls_trans vectorizeLoop_extends vectorizeLoops_extends_all)
    ultimately show ?thesis
      using z0 False by (simp add: r reads_append)
  qed
qed

lemma vectorizeLoops_changed_all:
  assumes "fst (vectorizeLoops C env Ls c st) = Inr ch"
  shows "ch = (c \<or> vectorizedLoops (newCalls st (snd (vectorizeLoops C env Ls c st))) \<noteq> [])"
  using assms
  by (intro vectorizeLoops_changed vectorizeLoopOrSubLoops_changed)

text \<open>
  C10. In a run without fatal error over a function whose loops have distinct
  identifiers, with \<open>n\<close> the calls of the run: the loops are entered in the order of the
  depth-first, outermost-first listing of the nest; when the pass is not disabled and the
  function is a kernel every top-level loop is entered; a loop that is vectorized was
  entered and no loop nested in it is entered; every immediate sub-loop of a loop that
  was entered and not vectorized is entered; the result is true exactly when some loop
  was vectorized. And at every loop and state, \<open>vectorizeLoopOrSubLoops\<close> is
  \<open>vectorizeLoop\<close> alone when that returns true, and the loop over the sub-loops, from
  the state \<open>vectorizeLoop\<close> leaves, when it returns false.
\<close>

theorem traversal_policy:
  fixes C :: "'ir collaborators"
  assumes ok: "fst (run C env F st) = Inr ch"
    and d: "distinct (forestOrder (loopInfo F))"
  defines "n \<equiv> newCalls st (snd (run C env F st))"
  shows "subseq (visited n) (forestOrder (loopInfo F))
       \<and> (env ''RV_DISABLE'' = None \<and> IsHipSYCLKernel F
            \<longrightarrow> (\<forall>S\<in>set (loopInfo F). loopId S \<in> set (visited n)))
       \<and> (\<forall>M\<in>set (forestLoops (loopInfo F)). loopId M \<in> set (vectorizedLoops n)
            \<longrightarrow> loopId M \<in> set (visited n)
                \<and> (\<forall>x\<in>set (forestOrder (subLoops M)). x \<notin> set (visited n)))
       \<and> (\<forall>M\<in>set (forestLoops (loopInfo F)).
             loopId M \<in> set (visited n) \<and> loopId M \<notin> set (vectorizedLoops n)
            \<longrightarrow> (\<forall>S\<in>set (subLoops M). loopId S \<in> set (visited n)))
       \<and> (ch \<longleftrightarrow> vectorizedLoops n \<noteq> [])
       \<and> (\<forall>L st'. fst (vectorizeLoop C env L st') = Inr True
            \<longrightarrow> vectorizeLoopOrSubLoops C env L st' = vectorizeLoop C env L st')
       \<and> (\<forall>L st'. fst (vectorizeLoop C env L st') = Inr False
            \<longrightarrow> vectorizeLoopOrSubLoops C env L st'
                = vectorizeLoops C env (subLoops L) False (snd (vectorizeLoop C env L st')))"
proof (cases "env ''RV_DISABLE'' = None \<and> IsHipSYCLKernel F")
  case False
  then have "run C env F st = (Inr False, st)"
    by (auto simp: run_def)
  with ok show ?thesis
    using False
    by (auto simp: n_def newCalls_refl reads_Nil vectorizeLoopOrSubLoops_eq)
next
  case True
  then have r: "run C env F st = vectorizeLoops C env (loopInfo F) False st"
    by (simp add: run_def)
  have inv: "traversalInv (loopInfo F) n"
    unfolding n_def r using ok d by (intro vectorizeLoops_traversal_all [where ch = ch]) (simp add: r)
  have chg: "ch = (False \<or> vectorizedLoops n \<noteq> [])"
    unfolding n_def r using ok by (intro vectorizeLoops_changed_all) (simp add: r)
  from inv chg show ?thesis
    by (auto simp: traversalInv_def depthFirst_def subLoopsSkipped_def subLoopsTried_def
        vectorizeLoopOrSubLoops_eq)
qed


subsection \<open>A run on the sample nest\<close>

lemma annotations_vectorizePrepared:
  "annotations (snd (vectorizePrepared C L W P uni st)) = annotations (marked st L P)"
  by (simp add: vectorizePrepared_def marked_def Let_def split: option.splits)

lemma annotations_marked_other:
  "loopId L \<noteq> l' \<Longrightarrow> preparedId P \<noteq> l' \<Longrightarrow> annotations (marked st L P) l' = annotations st l'"
  by (simp add: marked_def SetLLVMLoopAnnotations_def ClearLoopVectorizeAnnotations_def Let_def)

lemma vectorizeLoop_annotations_frame:
  assumes "loopId L \<noteq> l'"
    and "\<And>i W ta P u. snd (createVectorizableLoop C i L W ta) = Some (P, u)
           \<Longrightarrow> preparedId P \<noteq> l'"
  shows "annotations (snd (vectorizeLoop C env L st)) l' = annotations st l'"
proof (cases "passesGate C st L")
  case False
  then show ?thesis by (simp add: vectorizeLoop_not_gate)
next
  case True
  show ?thesis
    using assms
    by (auto simp: vectorizeLoop_gate [OF True] Let_def annotations_vectorizePrepared
        annotations_marked_other split: option.splits)
qed

lemma sample_accepts:
  assumes "isAnnotatedParallel L" and "annotations st (loopId L) = emptyMD"
  shows "fst (vectorizeLoop sampleCollab Map.empty L st) = Inr True"
proof (rule vectorizeLoop_accepted [where W = 8 and i' = "ir st + 1" and P = samplePrepared
      and uni = "[40]" and pinned = "[(1, Strided 1), (2, Varying)]"])
  show "passesGate sampleCollab st L"
    using assms by (simp add: parallel_passesGate sampleCollab_fields emptyMD_def)
  show "chosenWidth sampleCollab Map.empty L st = Some 8"
    using assms
    by (simp add: chosenWidth_def widthSelect_def Let_def effectiveAnnotation_def
        GetLoopAnnotation_def sampleCollab_fields emptyMD_def parallel_depDistOf int_cast_def
        size_cast_def)
qed (simp_all add: sampleCollab_fields sample_classify)

lemma sample_run:
  fixes n
  defines "n \<equiv> newCalls sampleState (snd (run sampleCollab Map.empty kernelFunction sampleState))"
  shows "fst (run sampleCollab Map.empty kernelFunction sampleState) = Inr True"
    and "visited n = [5, 2, 3]" and "vectorizedLoops n = [2, 3]"
proof -
  let ?L4 = "Loop 4 True (Some BranchInst) None []"
  let ?L2 = "Loop 2 True (Some BranchInst) (Some 15) [?L4]"
  let ?L3 = "Loop 3 True (Some BranchInst) None []"
  let ?N = "Loop 5 False (Some BranchInst) None [?L2, ?L3]"
  let ?vl = "vectorizeLoop sampleCollab Map.empty"
  let ?s0 = sampleState
  let ?s1 = "snd (?vl ?N ?s0)"
  let ?s2 = "snd (?vl ?L2 ?s1)"
  let ?s3 = "snd (?vl ?L3 ?s2)"
  have k: "IsHipSYCLKernel kernelFunction"
    by (simp add: IsHipSYCLKernel_def kernelFunction_def sampleFunction_def)
  have run: "run sampleCollab Map.empty kernelFunction sampleState
               = vectorizeLoops sampleCollab Map.empty [?N] False ?s0"
    using k by (simp add: run_def kernelFunction_def sampleNest_def)
  have g: "\<not> passesGate sampleCollab ?s0 ?N"
    by (simp add: passesGate_def effectiveAnnotation_def GetLoopAnnotation_def
        sampleState_fields emptyMD_def safeGet_def)
  have r0: "?vl ?N ?s0 = (Inr False, ?s0\<lparr>calls := calls ?s0 @ [VectorizeLoop 5]\<rparr>)"
    using vectorizeLoop_not_gate [OF g] by simp
  have a1: "annotations ?s1 l = emptyMD" for l
    by (simp add: r0 sampleState_fields)
  have f1: "fst (?vl ?L2 ?s1) = Inr True"
    by (rule sample_accepts) (simp_all add: a1)
  have a2: "annotations ?s2 3 = emptyMD"
    using a1 [of 3]
    by (subst vectorizeLoop_annotations_frame)
       (auto simp: sampleCollab_fields samplePrepared_fields)
  have f2: "fst (?vl ?L3 ?s2) = Inr True"
    by (rule sample_accepts) (simp_all add: a2)
  have res: "vectorizeLoops sampleCollab Map.empty [?N] False ?s0 = (Inr True, ?s3)"
    using f1 f2
    by (simp add: vectorizeLoops_Cons_eq vectorizeLoops_Nil vectorizeLoopOrSubLoops_eq r0
        prod_eq_iff)
  show "fst (run sampleCollab Map.empty kernelFunction sampleState) = Inr True"
    by (simp add: run res)
  have n: "n = newCalls ?s0 ?s1 @ newCalls ?s1 ?s2 @ newCalls ?s2 ?s3"
  proof -
    have "newCalls ?s0 ?s3 = newCalls ?s0 ?s2 @ newCalls ?s2 ?s3"
      by (intro newCalls_trans extends_trans [of ?s0 ?s1 ?s2] vectorizeLoop_extends)
    moreover have "newCalls ?s0 ?s2 = newCalls ?s0 ?s1 @ newCalls ?s1 ?s2"
      by (intro newCalls_trans vectorizeLoop_extends)
    ultimately show ?thesis
      by (simp add: n_def run res)
  qed
  have fN: "fst (?vl ?N ?s0) = Inr False"
    by (simp add: r0)
  show "visited n = [5, 2, 3]"
    by (simp add: n reads_append vectorizeLoop_visited)
  show "vectorizedLoops n = [2, 3]"
    by (simp add: n reads_append vectorizeLoop_vectorizedLoops [OF fN]
        vectorizeLoop_vectorizedLoops [OF f1] vectorizeLoop_vectorizedLoops [OF f2])
qed

lemma sample_forestOrder: "forestOrder (loopInfo kernelFunction) = [5, 2, 4, 3]"
  by (simp add: kernelFunction_def sampleNest_def forestOrder_def preorder_def)

text \<open>
  C10 at a kernel with the nest 5 (not enabled) over 2 (parallel, with the inner loop 4)
  and 3 (parallel): loops 5, 2 and 3 are entered, 2 and 3 are vectorized, 4 is not
  entered.
\<close>

theorem traversal_policy_witness:
  "fst (run sampleCollab Map.empty kernelFunction sampleState) = Inr True
   \<and> forestOrder (loopInfo kernelFunction) = [5, 2, 4, 3]
   \<and> visited (newCalls sampleState
        (snd (run sampleCollab Map.empty kernelFunction sampleState))) = [5, 2, 3]
   \<and> vectorizedLoops (newCalls sampleState
        (snd (run sampleCollab Map.empty kernelFunction sampleState))) = [2, 3]
   \<and> subseq (visited (newCalls sampleState
        (snd (run sampleCollab Map.empty kernelFunction sampleState)))) [5, 2, 4, 3]"
  using traversal_policy [of sampleCollab Map.empty kernelFunction sampleState True]
    sample_run
  by (simp add: sample_forestOrder)

subsection \<open>Main loop and remainder loop\<close>

lemma concat_vectorIterations:
  "concat (map (vectorIteration W) [0 ..< q]) = [0 ..< q * W]"
proof (induction q)
  case 0
  show ?case by simp
next
  case (Suc q)
  have "[0 ..< q * W] @ [q * W ..< q * W + W] = [0 ..< q * W + W]"
    by (simp add: upt_add_eq_append [symmetric])
  with Suc show ?case
    by (simp add: vectorIteration_def add.commute)
qed

lemma remainderLoop_upt:
  "remainderLoop T W = [mainIterations T W * W ..< T]"
proof -
  have "map (\<lambda>j. mainIterations T W * W + j) [0 ..< T mod W]
          = [mainIterations T W * W ..< mainIterations T W * W + T mod W]"
    by (simp add: map_add_upt add.commute)
  moreover have "mainIterations T W * W + T mod W = T"
    by (simp add: mainIterations_def)
  ultimately show ?thesis
    by (simp add: remainderLoop_def remainderIterations_def)
qed

lemma schedule_original:
  "concat (mainLoop T W) @ remainderLoop T W = originalLoop T"
proof -
  have "mainIterations T W * W \<le> T"
    by (simp add: mainIterations_def)
  then have "[0 ..< mainIterations T W * W] @ [mainIterations T W * W ..< T] = [0 ..< T]"
    by (metis le_Suc_ex upt_add_eq_append zero_le)
  then show ?thesis
    by (simp add: mainLoop_def concat_vectorIterations remainderLoop_upt originalLoop_def)
qed

text \<open>
  C1, on the remainder transform as the specification describes it, for a width of at
  least 1: the main loop has \<open>T div W\<close> vector iterations of \<open>W\<close> original iterations
  each, the remainder loop has \<open>T mod W\<close> iterations, fewer than \<open>W\<close>; the iterations
  of the two loops sum to \<open>T\<close>, the vector iterations counted with their \<open>W\<close> lanes;
  the iterations of the main loop followed by those of the remainder loop are the
  iterations of the original loop in their order; and running the main loop and then the
  remainder loop from any state, with any body, ends in the state the original loop ends
  in.
\<close>

theorem remainder_split:
  assumes "1 \<le> W"
  shows "length (mainLoop T W) = T div W
       \<and> (\<forall>v\<in>set (mainLoop T W). length v = W)
       \<and> length (remainderLoop T W) = T mod W
       \<and> length (remainderLoop T W) < W
       \<and> W * length (mainLoop T W) + length (remainderLoop T W) = T
       \<and> length (concat (mainLoop T W)) + length (remainderLoop T W) = T
       \<and> concat (mainLoop T W) @ remainderLoop T W = originalLoop T
       \<and> execute body (remainderLoop T W) (execute body (concat (mainLoop T W)) s)
           = execute body (originalLoop T) s"
proof (intro conjI ballI)
  show m: "length (mainLoop T W) = T div W"
    by (simp add: mainLoop_def mainIterations_def)
  show "length v = W" if "v \<in> set (mainLoop T W)" for v
    using that by (auto simp: mainLoop_def vectorIteration_def)
  show r: "length (remainderLoop T W) = T mod W"
    by (simp add: remainderLoop_def remainderIterations_def)
  show "length (remainderLoop T W) < W"
    using assms by (simp add: r)
  show "W * length (mainLoop T W) + length (remainderLoop T W) = T"
    by (simp add: m r)
  have "length (concat (mainLoop T W) @ remainderLoop T W) = T"
    by (simp only: schedule_original) (simp add: originalLoop_def)
  then show "length (concat (mainLoop T W)) + length (remainderLoop T W) = T"
    by simp
  show "concat (mainLoop T W) @ remainderLoop T W = originalLoop T"
    by (rule schedule_original)
  have "execute body (remainderLoop T W) (execute body (concat (mainLoop T W)) s)
          = execute body (concat (mainLoop T W) @ remainderLoop T W) s"
    by (simp add: execute_def)
  then show "execute body (remainderLoop T W) (execute body (concat (mainLoop T W)) s)
               = execute body (originalLoop T) s"
    by (simp only: schedule_original)
qed

text \<open>
  C1 at trip count 10 and width 4, with a body that records the iterations it runs.
\<close>

theorem remainder_split_witness:
  "length (mainLoop 10 4) = 2 \<and> length (remainderLoop 10 4) = 2
   \<and> length (remainderLoop 10 4) < 4
   \<and> 4 * length (mainLoop 10 4) + length (remainderLoop 10 4) = 10
   \<and> length (concat (mainLoop 10 4)) + length (remainderLoop 10 4) = 10
   \<and> concat (mainLoop 10 4) @ remainderLoop 10 4 = originalLoop 10
   \<and> execute (\<lambda>i s. s @ [i]) (remainderLoop 10 4)
        (execute (\<lambda>i s. s @ [i]) (concat (mainLoop 10 4)) [])
       = execute (\<lambda>i s. s @ [i]) (originalLoop 10) []"
  using remainder_split [of 4 10 "\<lambda>i s. s @ [i]" "[]"]
  by simp

end
